theory Spec2Isabelle
  imports Main "HOL-Library.Sublist"
begin

section \<open>The document structure the template works on\<close>

text \<open>
  The function \<open>template\<close> of \<open>main.js\<close> builds its component with the host library
  (jQuery over the DOM). The library is not part of the repository; what the function
  uses of it is modelled here, as far as \<open>template\<close> depends on it.

  Markup as a parser returns it is a tree without identity (\<open>html\<close>). A live node has an
  identity: the number it was created under. Two nodes with the same number are the same
  object; a structure that holds a node with number \<open>k\<close> holds that very node. An
  attribute list keeps the order of the element's \<open>attributes\<close> collection; names in it
  are unique.
\<close>

type_synonym attrs = "(string \<times> string) list"

datatype html = HElement string attrs "html list" | HText string

datatype node = Element nat string attrs "node list" | Text nat string

fun ident :: "node \<Rightarrow> nat" where
  "ident (Element i t as cs) = i"
| "ident (Text i s) = i"

fun childNodes :: "node \<Rightarrow> node list" where
  "childNodes (Element i t as cs) = cs"
| "childNodes (Text i s) = []"

text \<open>\<open>attributes\<close> is \<open>undefined\<close> on a text node (\<open>None\<close>).\<close>

fun attributes :: "node \<Rightarrow> attrs option" where
  "attributes (Element i t as cs) = Some as"
| "attributes (Text i s) = None"

text \<open>The markup of a live structure: the structure with the identities left out.\<close>

fun erase :: "node \<Rightarrow> html" where
  "erase (Element i t as cs) = HElement t as (map erase cs)"
| "erase (Text i s) = HText s"

text \<open>The identities of a node and of all nodes below it, in document order.\<close>

fun identities :: "node \<Rightarrow> nat list" where
  "identities (Element i t as cs) = i # concat (map identities cs)"
| "identities (Text i s) = [i]"

text \<open>
  Creating the nodes of parsed markup: every node gets the next unused number, in document
  order. The counter \<open>n\<close> is the number of nodes created so far.
\<close>

fun create :: "nat \<Rightarrow> html \<Rightarrow> node \<times> nat"
  and creates :: "nat \<Rightarrow> html list \<Rightarrow> node list \<times> nat" where
  "create n (HText s) = (Text n s, Suc n)"
| "create n (HElement t as hs) = (let (cs, n') = creates (Suc n) hs in (Element n t as cs, n'))"
| "creates n [] = ([], n)"
| "creates n (h # hs) =
     (let (x, n1) = create n h; (xs, n2) = creates n1 hs in (x # xs, n2))"

section \<open>Interpolated values\<close>

text \<open>
  An interpolated value is a string, another primitive, a jQuery object (the nodes it
  holds), an array of jQuery objects or DOM elements (one node list per item), or a
  callback. A number is given by the text that conversion to a string writes for it
  (\<open>0\<close>, \<open>-1.5\<close>, \<open>1e+21\<close>, \<open>NaN\<close>): the text is all that \<open>template\<close> and the
  insertion of the library use of a number. A node in a value is given with the subtree
  it has when the build begins.

  A callback takes no argument and reads the state it closes over; \<open>'w\<close> is the type of
  that state, and a callback is the function from the current state to what the call
  ends with: the value it returns, which is not itself a function, or the exception it
  throws.
\<close>

datatype prim = PNum string | PBool bool | PNull | PUndefined

datatype jsval = Str string | Prim prim | JQ "node list" | Arr "node list list"

datatype error = TypeError | HierarchyRequestError | Thrown string

datatype 'w arg = Val jsval | Callback "'w \<Rightarrow> error + jsval"

text \<open>
  The entry points of the library and of the runtime that the model takes as parameters:
  \<open>parseHTML\<close> is what \<open>$(html)\<close> makes of a markup string, the top-level nodes or the
  exception it throws; \<open>buildFragment\<close> is what an insertion such as
  \<open>replaceWith(string)\<close> makes of a string (a text node for plain text, parsed markup
  otherwise); \<open>inherited\<close> is what reading a property of an array that is neither an
  index nor \<open>length\<close> leads to in an insertion: \<open>undefined\<close> for a name that arrays do
  not have, and for the name of a method that arrays inherit what the method returns or
  throws when the insertion calls it. Every theorem below holds for every such host.
\<close>

record host =
  parseHTML :: "string \<Rightarrow> error + html list"
  buildFragment :: "string \<Rightarrow> html list"
  inherited :: "string \<Rightarrow> error + jsval"

text \<open>Decimal digits of an array index or length, as string conversion writes it.\<close>

fun decimal :: "nat \<Rightarrow> string" where
  "decimal n = (if n < 10 then [''0123456789'' ! n]
                else decimal (n div 10) @ [''0123456789'' ! (n mod 10)])"

declare decimal.simps [simp del]

fun toString :: "prim \<Rightarrow> string" where
  "toString (PNum text) = text"
| "toString (PBool b) = (if b then ''true'' else ''false'')"
| "toString PNull = ''null''"
| "toString PUndefined = ''undefined''"

section \<open>Assembling the markup: \<open>createReference\<close> and the \<open>reduce\<close> of \<open>buildComponent\<close>\<close>

text \<open>The placeholder \<^verbatim>\<open><b data-slot-index=${index}></b>\<close>.\<close>

definition marker :: "nat \<Rightarrow> string" where
  "marker index = ''<b data-slot-index='' @ decimal index @ ''></b>''"

text \<open>
  \<open>createReference(value, index)\<close>, with the table \<open>references\<close> passed in and returned:
  the string it returns, or the exception the callback throws. The last branch of the
  source returns the value itself; the caller concatenates it to a string, which converts
  a primitive with \<open>toString\<close>.
\<close>

fun createReference ::
  "'w \<Rightarrow> (nat \<rightharpoonup> jsval) \<Rightarrow> 'w arg \<Rightarrow> nat \<Rightarrow> (error + string) \<times> (nat \<rightharpoonup> jsval)" where
  "createReference w references (Callback f) index =
     (case f w of
        Inl thrown \<Rightarrow> (Inl thrown, references)
      | Inr (Str evaluated) \<Rightarrow> (Inr evaluated, references)
      | Inr evaluated \<Rightarrow> (Inr (marker index), references(index \<mapsto> evaluated)))"
| "createReference w references (Val (JQ ns)) index = (Inr (marker index), references)"
| "createReference w references (Val (Arr xs)) index = (Inr (marker index), references)"
| "createReference w references (Val (Str s)) index = (Inr s, references)"
| "createReference w references (Val (Prim p)) index = (Inr (toString p), references)"

text \<open>
  \<open>strings[k]\<close>. A tagged template call passes one fragment more than it passes values,
  so the read is in range there; out of range it is \<open>undefined\<close>, which concatenation
  writes out.
\<close>

definition fragment :: "string list \<Rightarrow> nat \<Rightarrow> string" where
  "fragment strings k = (if k < length strings then strings ! k else ''undefined'')"

text \<open>
  \<open>args.reduce((prev, value, i) => prev + createReference(value, i) + strings[i + 1], ...)\<close>
  from index \<open>i\<close> on, with the values still to come. An exception ends it, with the table
  as it is then.
\<close>

fun reduce ::
  "'w \<Rightarrow> string list \<Rightarrow> 'w arg list \<Rightarrow> nat \<Rightarrow> string \<times> (nat \<rightharpoonup> jsval)
     \<Rightarrow> (error + string) \<times> (nat \<rightharpoonup> jsval)" where
  "reduce w strings [] i (prev, references) = (Inr prev, references)"
| "reduce w strings (value # rest) i (prev, references) =
     (case createReference w references value i of
        (Inl thrown, references') \<Rightarrow> (Inl thrown, references')
      | (Inr piece, references') \<Rightarrow>
          reduce w strings rest (Suc i) (prev @ piece @ fragment strings (Suc i), references'))"

section \<open>Resolving the placeholders\<close>

text \<open>
  \<open>$(this).data("slotIndex")\<close> reads the attribute \<open>data-slot-index\<close> and converts its
  text: to a number when the text is exactly the writing of that number, to some other
  value otherwise. The result is used as a key of \<open>references\<close> and as a property name
  of \<open>args\<close>. The table is keyed by the indices \<open>0, 1, 2, ...\<close> only, and for any other
  result the property read is the one the text names: the model keeps the index,
  \<open>Number i\<close>, or the name, \<open>Name text\<close> (\<open>undefined\<close> when the attribute is missing).
\<close>

datatype index = Number nat | Name string

definition digitsValue :: "string \<Rightarrow> nat" where
  "digitsValue s = foldl (\<lambda>acc c. 10 * acc + (of_char c - 48)) 0 s"

definition slotIndex :: "attrs \<Rightarrow> index" where
  "slotIndex as =
     (case map_of as ''data-slot-index'' of
        None \<Rightarrow> Name ''undefined''
      | Some text \<Rightarrow>
          if decimal (digitsValue text) = text then Number (digitsValue text) else Name text)"

text \<open>
  \<open>args[index]\<close>: the value at an index of the array, \<open>undefined\<close> past its end, the
  number of values for \<open>length\<close>, and what the host gives for any other name.
\<close>

definition argsAt :: "host \<Rightarrow> 'w arg list \<Rightarrow> index \<Rightarrow> error + 'w arg" where
  "argsAt h args index =
     (case index of
        Number i \<Rightarrow> Inr (if i < length args then args ! i else Val (Prim PUndefined))
      | Name name \<Rightarrow>
          if name = ''length'' then Inr (Val (Prim (PNum (decimal (length args)))))
          else (case inherited h name of Inl thrown \<Rightarrow> Inl thrown | Inr v \<Rightarrow> Inr (Val v)))"

text \<open>\<open>getReferenceValue(value, index)\<close>, reading the table \<open>references\<close>.\<close>

definition getReferenceValue :: "(nat \<rightharpoonup> jsval) \<Rightarrow> 'w arg \<Rightarrow> index \<Rightarrow> 'w arg" where
  "getReferenceValue references value index =
     (case index of
        Name name \<Rightarrow> value
      | Number i \<Rightarrow> (case references i of Some stored \<Rightarrow> Val stored | None \<Rightarrow> value))"

text \<open>
  The nodes \<open>replaceWith(value)\<close> is given to put in the place of the node it is called
  on. A jQuery object gives its nodes and an array gives the nodes of its items, the
  objects themselves and not copies; a string goes through \<open>buildFragment\<close>; a number
  other than \<open>NaN\<close> and \<open>true\<close> become a new text node; \<open>NaN\<close>, \<open>false\<close>, \<open>null\<close> and
  \<open>undefined\<close> give nothing. A function is called by the library, and what it returns is
  inserted.
\<close>

fun inserted :: "host \<Rightarrow> jsval \<Rightarrow> nat \<Rightarrow> node list \<times> nat" where
  "inserted h (JQ ns) n = (ns, n)"
| "inserted h (Arr xs) n = (concat xs, n)"
| "inserted h (Str s) n = creates n (buildFragment h s)"
| "inserted h (Prim (PNum text)) n = (if text = ''NaN'' then ([], n) else ([Text n text], Suc n))"
| "inserted h (Prim (PBool True)) n = ([Text n (toString (PBool True))], Suc n)"
| "inserted h (Prim (PBool False)) n = ([], n)"
| "inserted h (Prim PNull) n = ([], n)"
| "inserted h (Prim PUndefined) n = ([], n)"

fun replacement :: "host \<Rightarrow> 'w \<Rightarrow> 'w arg \<Rightarrow> nat \<Rightarrow> (error + node list) \<times> nat" where
  "replacement h w (Val v) n = (Inr (fst (inserted h v n)), snd (inserted h v n))"
| "replacement h w (Callback f) n =
     (case f w of
        Inl thrown \<Rightarrow> (Inl thrown, n)
      | Inr v \<Rightarrow> (Inr (fst (inserted h v n)), snd (inserted h v n)))"

text \<open>
  The body of the \<open>each\<close> callback of \<open>buildComponent\<close>, for a placeholder with the
  attributes \<open>as\<close>: the nodes \<open>replaceWith\<close> is to put in its place, or the exception
  that ends the call.
\<close>

definition slotContent ::
  "host \<Rightarrow> 'w \<Rightarrow> 'w arg list \<Rightarrow> (nat \<rightharpoonup> jsval) \<Rightarrow> attrs \<Rightarrow> nat
     \<Rightarrow> (error + node list) \<times> nat" where
  "slotContent h w args references as n =
     (let index = slotIndex as
      in case argsAt h args index of
           Inl thrown \<Rightarrow> (Inl thrown, n)
         | Inr read \<Rightarrow> replacement h w (getReferenceValue references read index) n)"

text \<open>
  \<^verbatim>\<open>component.find(`b[data-slot-index]`)\<close>: the elements \<open>b\<close> with an attribute
  \<open>data-slot-index\<close> below the top-level nodes, in document order, each with its identity
  and its attributes. The top-level nodes themselves are not among them; a placeholder
  inside a placeholder is. The set is fixed before the first replacement.
\<close>

definition selected :: "string \<Rightarrow> attrs \<Rightarrow> bool" where
  "selected t as = (t = ''b'' \<and> map_of as ''data-slot-index'' \<noteq> None)"

fun matched :: "node \<Rightarrow> (nat \<times> attrs) list" where
  "matched (Text i s) = []"
| "matched (Element i t as cs) =
     (if selected t as then [(i, as)] else []) @ concat (map matched cs)"

definition contents :: "node list \<Rightarrow> node list" where
  "contents roots = concat (map childNodes roots)"

definition findSlots :: "node list \<Rightarrow> (nat \<times> attrs) list" where
  "findSlots roots = concat (map matched (contents roots))"

text \<open>
  A node has one place: inserting it takes it out of the place it has. \<open>without ids x\<close>
  is the node \<open>x\<close> when the nodes with the identities \<open>ids\<close> have been taken out from
  below it, and \<open>put k new x\<close> is \<open>x\<close> when the nodes \<open>new\<close> have been put in the place
  of the node \<open>k\<close> below it.
\<close>

fun without :: "nat list \<Rightarrow> node \<Rightarrow> node" where
  "without ids (Text i s) = Text i s"
| "without ids (Element i t as cs) =
     Element i t as (concat (map (\<lambda>c. if ident c \<in> set ids then [] else [without ids c]) cs))"

fun put :: "nat \<Rightarrow> node list \<Rightarrow> node \<Rightarrow> node" where
  "put k new (Text i s) = Text i s"
| "put k new (Element i t as cs) =
     Element i t as (concat (map (\<lambda>c. if ident c = k then new else [put k new c]) cs))"

text \<open>
  The nodes of a value as an insertion takes them: a node that the list holds several
  times is taken once, at its last place (\<open>lastOnly\<close>), and a node is taken without the
  nodes below it that have a place of their own, either in this list or, by an earlier
  insertion of the build, in the component (\<open>taken\<close>).
\<close>

fun lastOnly :: "node list \<Rightarrow> node list" where
  "lastOnly [] = []"
| "lastOnly (x # xs) = (if ident x \<in> set (map ident xs) then lastOnly xs else x # lastOnly xs)"

definition moved :: "nat list \<Rightarrow> node list \<Rightarrow> node list" where
  "moved taken new = lastOnly (map (without (taken @ map ident new)) new)"

text \<open>
  \<open>$(this).replaceWith(value)\<close> for the placeholder with identity \<open>k\<close>, seen from the
  top-level nodes of the component: the nodes \<open>new\<close> leave the places they have below
  these and take the place of the placeholder. A placeholder that is no longer below them
  (it was inside a placeholder replaced before) has no place to give.
\<close>

definition replaceWith :: "nat \<Rightarrow> node list \<Rightarrow> node list \<Rightarrow> node list" where
  "replaceWith k new roots = map (\<lambda>r. put k new (without (map ident new) r)) roots"

text \<open>
  \<open>.each(function () { ... })\<close> over the placeholders found: for each in turn the callback
  \<open>f\<close> gives the nodes to insert, or throws, which ends the loop. \<open>taken\<close> are the
  identities of the nodes inserted so far.
\<close>

fun each ::
  "(attrs \<Rightarrow> nat \<Rightarrow> (error + node list) \<times> nat) \<Rightarrow> (nat \<times> attrs) list
     \<Rightarrow> node list \<times> nat list \<Rightarrow> nat \<Rightarrow> (error + node list) \<times> nat" where
  "each f [] (roots, taken) n = (Inr roots, n)"
| "each f ((k, as) # rest) (roots, taken) n =
     (case f as n of
        (Inl thrown, n1) \<Rightarrow> (Inl thrown, n1)
      | (Inr value, n1) \<Rightarrow>
          each f rest (replaceWith k (moved taken value) roots,
                       taken @ map ident (moved taken value)) n1)"

section \<open>The closure of one call of \<open>template\<close>\<close>

text \<open>
  The variables the inner functions share: the parameters \<open>strings\<close> and \<open>args\<close>, the
  table \<open>references\<close> and the component \<open>componentInstance\<close> (the top-level nodes the
  jQuery object holds). \<open>created\<close> is the document's count of nodes created so far.
\<close>

record 'w closure =
  strings :: "string list"
  args :: "'w arg list"
  references :: "nat \<rightharpoonup> jsval"
  componentInstance :: "node list"
  created :: nat

text \<open>
  \<open>buildComponent()\<close>, run while the closed-over state is \<open>w\<close>: the component it
  returns or the exception it ends with, and the closure as it leaves it. An exception
  leaves before \<open>references.clear()\<close>.
\<close>

definition buildComponent ::
  "host \<Rightarrow> 'w \<Rightarrow> 'w closure \<Rightarrow> (error + node list) \<times> 'w closure" where
  "buildComponent h w c =
     (case reduce w (strings c) (args c) 0 (fragment (strings c) 0, references c) of
        (Inl thrown, table) \<Rightarrow> (Inl thrown, c\<lparr>references := table\<rparr>)
      | (Inr html, table) \<Rightarrow>
          (case parseHTML h html of
             Inl thrown \<Rightarrow> (Inl thrown, c\<lparr>references := table\<rparr>)
           | Inr parsed \<Rightarrow>
               (case each (slotContent h w (args c) table)
                       (findSlots (fst (creates (created c) parsed)))
                       (fst (creates (created c) parsed), [])
                       (snd (creates (created c) parsed)) of
                  (Inl thrown, n) \<Rightarrow> (Inl thrown, c\<lparr>references := table, created := n\<rparr>)
                | (Inr component, n) \<Rightarrow>
                    (Inr component, c\<lparr>references := Map.empty, created := n\<rparr>))))"

section \<open>\<open>copyAttributes\<close>\<close>

text \<open>
  \<open>removeAttribute\<close> and \<open>setAttribute\<close> on an attribute list: a new attribute goes to the
  end, an existing one keeps its place.
\<close>

definition removeAttribute :: "string \<Rightarrow> attrs \<Rightarrow> attrs" where
  "removeAttribute name as = filter (\<lambda>a. fst a \<noteq> name) as"

fun setAttribute :: "string \<Rightarrow> string \<Rightarrow> attrs \<Rightarrow> attrs" where
  "setAttribute name v [] = [(name, v)]"
| "setAttribute name v (a # as) =
     (if fst a = name then (name, v) # as else a # setAttribute name v as)"

text \<open>
  The first loop, \<open>for (const { name } of destinationDOM.attributes)\<close>. The collection is
  live and its iterator counts positions: each round reads the attribute at position \<open>i\<close>
  of the collection as it is then, removes it, and goes on to position \<open>i + 1\<close>.
\<close>

function removeLoop :: "nat \<Rightarrow> attrs \<Rightarrow> attrs" where
  "removeLoop i as =
     (if i < length as then removeLoop (Suc i) (removeAttribute (fst (as ! i)) as) else as)"
  by pat_completeness auto

termination
proof (relation "measure (\<lambda>(i, as). length as - i)")
  show "wf (measure (\<lambda>(i, as). length as - i))" by simp
next
  fix i :: nat and as :: attrs
  assume "i < length as"
  moreover have "length (removeAttribute (fst (as ! i)) as) \<le> length as"
    by (simp add: removeAttribute_def)
  ultimately show "((Suc i, removeAttribute (fst (as ! i)) as), (i, as))
        \<in> measure (\<lambda>(i, as). length as - i)"
    by simp
qed

declare removeLoop.simps [simp del]

text \<open>The second loop, over the attributes of the source, which it does not change.\<close>

fun setLoop :: "attrs \<Rightarrow> attrs \<Rightarrow> attrs" where
  "setLoop [] as = as"
| "setLoop ((name, v) # source) as = setLoop source (setAttribute name v as)"

text \<open>
  \<open>copyAttributes(sourceDOM, destinationDOM)\<close>. An argument is \<open>None\<close> when \<open>get(0)\<close>
  found no node. Reading \<open>attributes\<close> of \<open>undefined\<close>, or iterating the \<open>attributes\<close>
  of a text node, throws; the destination is returned as the function leaves it.
  Attribute names are names that \<open>setAttribute\<close> accepts.
\<close>

fun copyAttributes :: "node option \<Rightarrow> node option \<Rightarrow> node option \<times> error option" where
  "copyAttributes sourceDOM (Some (Element i t as cs)) =
     (case Option.bind sourceDOM attributes of
        None \<Rightarrow> (Some (Element i t (removeLoop 0 as) cs), Some TypeError)
      | Some source \<Rightarrow> (Some (Element i t (setLoop source (removeLoop 0 as)) cs), None))"
| "copyAttributes sourceDOM (Some (Text i s)) = (Some (Text i s), Some TypeError)"
| "copyAttributes sourceDOM None = (None, Some TypeError)"

section \<open>\<open>refresh\<close> and \<open>template\<close>\<close>

text \<open>
  The library calls of \<open>refresh\<close>. \<open>contents()\<close> gives the children of all top-level
  nodes; \<open>empty()\<close> removes the children of every element of the collection; \<open>get(0)\<close>
  is the first node, if any.

  \<open>append\<close> leaves out the content nodes that are themselves nodes of the collection
  and does nothing without content; otherwise it gives the content itself to the last
  node of the collection and a fresh deep copy to each node before it, an element taking
  it as its last children and a text node dropping it. An element cannot take a node
  that it is part of: the insertion then throws and leaves the element as it is.
\<close>

fun emptyNode :: "node \<Rightarrow> node" where
  "emptyNode (Element i t as cs) = Element i t as []"
| "emptyNode (Text i s) = Text i s"

fun appendChildren :: "node \<Rightarrow> node list \<Rightarrow> node" where
  "appendChildren (Element i t as cs) new = Element i t as (cs @ new)"
| "appendChildren (Text i s) new = Text i s"

fun appendChild :: "node \<Rightarrow> node list \<Rightarrow> node \<times> error option" where
  "appendChild (Element i t as cs) new =
     (if i \<in> set (concat (map identities new))
      then (Element i t as cs, Some HierarchyRequestError)
      else (Element i t as (cs @ new), None))"
| "appendChild (Text i s) new = (Text i s, None)"

fun appendEach :: "node list \<Rightarrow> node list \<Rightarrow> nat \<Rightarrow> (node list \<times> nat) \<times> error option" where
  "appendEach [] content n = (([], n), None)"
| "appendEach [target] content n =
     (([fst (appendChild target content)], n), snd (appendChild target content))"
| "appendEach (target # targets) content n =
     (let (copy, n1) = creates n (map erase content);
          ((targets', n2), thrown) = appendEach targets content n1
      in ((appendChildren target copy # targets', n2), thrown))"

definition append :: "node list \<Rightarrow> node list \<Rightarrow> nat \<Rightarrow> (node list \<times> nat) \<times> error option" where
  "append targets content n =
     (let new = filter (\<lambda>x. ident x \<notin> set (map ident targets)) content
      in if new = [] then ((targets, n), None) else appendEach targets new n)"

definition get0 :: "node list \<Rightarrow> node option" where
  "get0 roots = (case roots of [] \<Rightarrow> None | r # rest \<Rightarrow> Some r)"

text \<open>
  \<open>refresh()\<close>, run while the closed-over state is \<open>w\<close>: the closure as the call leaves
  it, and the exception it ends with, if any. An exception of \<open>buildComponent\<close> ends the
  call before it touches \<open>componentInstance\<close>. \<open>copyAttributes\<close> changes the first node
  of \<open>componentInstance\<close> in place.
\<close>

definition refresh :: "host \<Rightarrow> 'w \<Rightarrow> 'w closure \<Rightarrow> 'w closure \<times> error option" where
  "refresh h w c =
     (case buildComponent h w c of
        (Inl thrown, c1) \<Rightarrow> (c1, Some thrown)
      | (Inr updatedComponent, c1) \<Rightarrow>
          (let updatedChildren = contents updatedComponent;
               ((live, n), thrown) =
                  append (map emptyNode (componentInstance c1)) updatedChildren (created c1)
           in case thrown of
                Some e \<Rightarrow> (c1\<lparr>componentInstance := live, created := n\<rparr>, Some e)
              | None \<Rightarrow>
                  (let (destination, thrown') = copyAttributes (get0 updatedComponent) (get0 live)
                   in (c1\<lparr>componentInstance :=
                            (case destination of None \<Rightarrow> live | Some d \<Rightarrow> d # tl live),
                          created := n\<rparr>,
                       thrown'))))"

text \<open>
  \<open>template(strings, ...args)\<close>, called while the closed-over state is \<open>w\<close> and \<open>n\<close> nodes
  exist: the closure it leaves behind, whose \<open>componentInstance\<close> is the object it
  returns (with \<open>refresh\<close> attached), or the exception of the first build, with which the
  call ends.
\<close>

definition template ::
  "host \<Rightarrow> 'w \<Rightarrow> nat \<Rightarrow> string list \<Rightarrow> 'w arg list \<Rightarrow> error + 'w closure" where
  "template h w n strs values =
     (case buildComponent h w
             \<lparr>strings = strs, args = values, references = Map.empty,
              componentInstance = [], created = n\<rparr> of
        (Inl thrown, c1) \<Rightarrow> Inl thrown
      | (Inr component, c1) \<Rightarrow> Inr (c1\<lparr>componentInstance := component\<rparr>))"

section \<open>Notions used in the statements\<close>

text \<open>A node apart from its attributes and its children: its identity and its tag or text.\<close>

fun bare :: "node \<Rightarrow> node" where
  "bare (Element i t as cs) = Element i t [] []"
| "bare (Text i s) = Text i s"

text \<open>
  The nodes a jQuery object or an array holds; \<open>nodeLike\<close> is the test
  \<open>value instanceof jQuery || Array.isArray(value)\<close> and \<open>isString\<close> the test
  \<open>typeof evaluated == "string"\<close>.
\<close>

fun held :: "jsval \<Rightarrow> node list" where
  "held (JQ ns) = ns"
| "held (Arr xs) = concat xs"
| "held (Str s) = []"
| "held (Prim p) = []"

fun nodeLike :: "jsval \<Rightarrow> bool" where
  "nodeLike (JQ ns) = True"
| "nodeLike (Arr xs) = True"
| "nodeLike (Str s) = False"
| "nodeLike (Prim p) = False"

fun isString :: "jsval \<Rightarrow> bool" where
  "isString (Str s) = True"
| "isString (Prim p) = False"
| "isString (JQ ns) = False"
| "isString (Arr xs) = False"

text \<open>
  Nodes are \<open>separate\<close> when no node occurs among them twice, at the top or inside
  another one. The parsed component and the nodes a build inserts into it are separate
  unless a value brings the same node, or a node and one of the nodes below it, to two
  placeholders.
\<close>

definition separate :: "node list \<Rightarrow> bool" where
  "separate ns = distinct (concat (map identities ns))"

text \<open>
  What the calls of the \<open>each\<close> callback are given to insert, one list of nodes for each
  placeholder in turn, when no call throws.
\<close>

fun insertions ::
  "(attrs \<Rightarrow> nat \<Rightarrow> (error + node list) \<times> nat) \<Rightarrow> attrs list \<Rightarrow> nat
     \<Rightarrow> (error + node list list) \<times> nat" where
  "insertions f [] n = (Inr [], n)"
| "insertions f (as # rest) n =
     (case f as n of
        (Inl thrown, n1) \<Rightarrow> (Inl thrown, n1)
      | (Inr value, n1) \<Rightarrow>
          (case insertions f rest n1 of
             (Inl thrown, n2) \<Rightarrow> (Inl thrown, n2)
           | (Inr news, n2) \<Rightarrow> (Inr (value # news), n2)))"

text \<open>
  The spec's reading of the resolution: every placeholder is replaced, where it stands,
  by its content. \<open>fill g x\<close> is the node \<open>x\<close> with every node below it for which \<open>g\<close>
  has a content replaced by that content; the other nodes stay, with their own children
  filled. \<open>placed slots news\<close> gives each placeholder found the content with the same
  position in the list \<open>news\<close>.
\<close>

fun fill :: "(nat \<rightharpoonup> node list) \<Rightarrow> node \<Rightarrow> node" where
  "fill g (Text i s) = Text i s"
| "fill g (Element i t as cs) =
     Element i t as (concat (map (\<lambda>c. case g (ident c) of Some new \<Rightarrow> new | None \<Rightarrow> [fill g c]) cs))"

definition placed :: "(nat \<times> attrs) list \<Rightarrow> node list list \<Rightarrow> (nat \<rightharpoonup> node list)" where
  "placed slots news = map_of (zip (map fst slots) news)"


text \<open>
  The text an interpolated string or primitive stands for (\<open>None\<close> for any other
  value), and the direct concatenation \<open>F[0] + V[0] + F[1] + ... + V[n-1] + F[n]\<close> of
  the fragments with the texts of the values, as the spec words it.
\<close>

fun plainText :: "'w arg \<Rightarrow> string option" where
  "plainText (Val (Str s)) = Some s"
| "plainText (Val (Prim p)) = Some (toString p)"
| "plainText (Val (JQ ns)) = None"
| "plainText (Val (Arr xs)) = None"
| "plainText (Callback f) = None"

fun interleave :: "string list \<Rightarrow> nat \<Rightarrow> string list \<Rightarrow> string" where
  "interleave strs k [] = []"
| "interleave strs k (v # vs) = v @ fragment strs (Suc k) @ interleave strs (Suc k) vs"

definition concatenation :: "string list \<Rightarrow> string list \<Rightarrow> string" where
  "concatenation strs texts = fragment strs 0 @ interleave strs 0 texts"

text \<open>
  Markup without an element \<^verbatim>\<open>b[data-slot-index]\<close> anywhere in it (\<open>unmarked\<close>), and a
  top-level node with no such element below it (\<open>unmarkedBelow\<close>).
\<close>

fun unmarked :: "html \<Rightarrow> bool" where
  "unmarked (HText s) = True"
| "unmarked (HElement t as hs) = (\<not> selected t as \<and> list_all unmarked hs)"

fun unmarkedBelow :: "html \<Rightarrow> bool" where
  "unmarkedBelow (HText s) = True"
| "unmarkedBelow (HElement t as hs) = list_all unmarked hs"

text \<open>Every second element of a list: those at the positions 1, 3, 5, ...\<close>

fun others :: "'a list \<Rightarrow> 'a list" where
  "others [] = []"
| "others [x] = []"
| "others (x # y # rest) = y # others rest"

section \<open>Example templates\<close>

text \<open>
  A host that knows the markup of the examples below (and throws for any other string),
  with plain text as the only string an insertion receives and no further property on
  arrays.
\<close>

definition exampleMarkup :: "(string \<times> html list) list" where
  "exampleMarkup =
     [(''<div><b data-slot-index=0></b></div>'',
         [HElement ''div'' [] [HElement ''b'' [(''data-slot-index'', ''0'')] []]]),
      (''<ul><li>first</li><b data-slot-index=0></b><li>last</li></ul>'',
         [HElement ''ul'' []
            [HElement ''li'' [] [HText ''first''],
             HElement ''b'' [(''data-slot-index'', ''0'')] [],
             HElement ''li'' [] [HText ''last'']]]),
      (''<div id=x class=y></div>'',
         [HElement ''div'' [(''id'', ''x''), (''class'', ''y'')] []]),
      (''<div ></div>'',
         [HElement ''div'' [] []]),
      (''<button id=b>Hello, World!</button>'',
         [HElement ''button'' [(''id'', ''b'')] [HText ''Hello, World!'']]),
      (''<div><b data-slot-index=0></b>hi</div>'',
         [HElement ''div'' [] [HElement ''b'' [(''data-slot-index'', ''0'')] [], HText ''hi'']]),
      (''<b data-slot-index=0></b>'',
         [HElement ''b'' [(''data-slot-index'', ''0'')] []]),
      (''<main><div><b data-slot-index=0></b></div></main>'',
         [HElement ''main'' []
            [HElement ''div'' [] [HElement ''b'' [(''data-slot-index'', ''0'')] []]]]),
      (''<div><b data-slot-index=0></b><b data-slot-index=1></b></div>'',
         [HElement ''div'' []
            [HElement ''b'' [(''data-slot-index'', ''0'')] [],
             HElement ''b'' [(''data-slot-index'', ''1'')] []]]),
      (''<main><h1>Items</h1><ul><b data-slot-index=1></b></ul></main>'',
         [HElement ''main'' []
            [HElement ''h1'' [] [HText ''Items''],
             HElement ''ul'' [] [HElement ''b'' [(''data-slot-index'', ''1'')] []]]]),
      (''<main><h1>More items</h1><ul><b data-slot-index=1></b></ul></main>'',
         [HElement ''main'' []
            [HElement ''h1'' [] [HText ''More items''],
             HElement ''ul'' [] [HElement ''b'' [(''data-slot-index'', ''1'')] []]]])]"

definition exampleHost :: host where
  "exampleHost =
     \<lparr>parseHTML = (\<lambda>s. case map_of exampleMarkup s of
                           Some parsed \<Rightarrow> Inr parsed
                         | None \<Rightarrow> Inl (Thrown ''Syntax error'')),
      buildFragment = (\<lambda>s. if s = [] then [] else [HText s]),
      inherited = (\<lambda>name. Inr (Prim PUndefined))\<rparr>"

text \<open>
  Two components built before, and the templates
  \<^verbatim>\<open>template`<div>${nextButton}</div>`\<close>,
  \<^verbatim>\<open>template`<main><div>${nextButton}</div></main>`\<close>,
  \<^verbatim>\<open>template`<div>${nextButton}${backButton}</div>`\<close>,
  \<^verbatim>\<open>template`<div>${nextButton}${nextButton}</div>`\<close> and
  \<^verbatim>\<open>template`${nextButton}`\<close>, each given by the variables of the call when
  \<open>buildComponent\<close> first runs, ten nodes existing.
\<close>

definition nextButton :: node where
  "nextButton = Element 7 ''button'' [(''type'', ''button'')] [Text 8 ''Next'']"

definition backButton :: node where
  "backButton = Element 5 ''button'' [(''type'', ''button'')] [Text 6 ''Back'']"

definition buttonArgs :: "unit arg list" where
  "buttonArgs = [Val (JQ [nextButton])]"

definition buttonClosure :: "unit closure" where
  "buttonClosure =
     \<lparr>strings = [''<div>'', ''</div>''], args = buttonArgs, references = Map.empty,
      componentInstance = [], created = 10\<rparr>"

definition nestedClosure :: "unit closure" where
  "nestedClosure =
     \<lparr>strings = [''<main><div>'', ''</div></main>''], args = buttonArgs,
      references = Map.empty, componentInstance = [], created = 10\<rparr>"

definition pairClosure :: "unit closure" where
  "pairClosure =
     \<lparr>strings = [''<div>'', '''', ''</div>''],
      args = [Val (JQ [nextButton]), Val (JQ [backButton])],
      references = Map.empty, componentInstance = [], created = 10\<rparr>"

definition twiceClosure :: "unit closure" where
  "twiceClosure =
     \<lparr>strings = [''<div>'', '''', ''</div>''],
      args = [Val (JQ [nextButton]), Val (JQ [nextButton])],
      references = Map.empty, componentInstance = [], created = 10\<rparr>"

definition bareClosure :: "unit closure" where
  "bareClosure =
     \<lparr>strings = ['''', ''''], args = buttonArgs, references = Map.empty,
      componentInstance = [], created = 10\<rparr>"

text \<open>
  \<^verbatim>\<open>template`<ul><li>first</li>${() => items.map(listItem)}<li>last</li></ul>`\<close>, where the
  state the callback reads is the list \<open>items\<close> and the item components exist already
  (\<open>listClosure\<close> when \<open>buildComponent\<close> first runs, a hundred nodes existing, and
  \<open>listInstance\<close> the closure the call leaves behind when the list is \<open>A\<close>, \<open>B\<close>);
  \<^verbatim>\<open>template`${() => items.map(listItem)}`\<close>, the same callback as the whole template
  (the variables of the call when \<open>buildComponent\<close> first runs, a hundred nodes existing,
  and the closure the call leaves behind when the list is \<open>A\<close>, \<open>B\<close>); and
  \<^verbatim>\<open>template`<main><h1>${() => title}</h1><ul>${() => items.map(listItem)}</ul></main>`\<close>,
  where the state is the title and the list (\<open>pageInstance\<close> is the closure the call
  leaves behind when the title is \<open>Items\<close>, the list is \<open>A\<close>, \<open>B\<close> and a hundred nodes
  existed before).
\<close>

definition listItem :: "nat \<Rightarrow> string \<Rightarrow> node list" where
  "listItem k name = [Element k ''li'' [] [Text (Suc k) name]]"

definition listItems :: "string list \<Rightarrow> jsval" where
  "listItems items = Arr (map (\<lambda>(k, name). listItem (2 * k) name) (enumerate 0 items))"

definition listArgs :: "(string list) arg list" where
  "listArgs = [Callback (\<lambda>items. Inr (listItems items))]"

definition listStrings :: "string list" where
  "listStrings = [''<ul><li>first</li>'', ''<li>last</li></ul>'']"

definition listClosure :: "(string list) closure" where
  "listClosure =
     \<lparr>strings = listStrings, args = listArgs, references = Map.empty,
      componentInstance = [], created = 100\<rparr>"

definition wholeClosure :: "(string list) closure" where
  "wholeClosure =
     \<lparr>strings = ['''', ''''], args = listArgs, references = Map.empty,
      componentInstance = [], created = 100\<rparr>"

definition wholeInstance :: "(string list) closure" where
  "wholeInstance =
     \<lparr>strings = ['''', ''''], args = listArgs, references = Map.empty,
      componentInstance = [Element 100 ''b'' [(''data-slot-index'', ''0'')] []], created = 101\<rparr>"

definition listInstance :: "(string list) closure" where
  "listInstance =
     \<lparr>strings = listStrings, args = listArgs, references = Map.empty,
      componentInstance =
        [Element 100 ''ul'' []
          [Element 101 ''li'' [] [Text 102 ''first''],
           Element 0 ''li'' [] [Text 1 ''A''],
           Element 2 ''li'' [] [Text 3 ''B''],
           Element 104 ''li'' [] [Text 105 ''last'']]],
      created = 106\<rparr>"

definition listAB :: jsval where
  "listAB = Arr [[Element 0 ''li'' [] [Text 1 ''A'']], [Element 2 ''li'' [] [Text 3 ''B'']]]"

definition pageStrings :: "string list" where
  "pageStrings = [''<main><h1>'', ''</h1><ul>'', ''</ul></main>'']"

definition pageArgs :: "(string \<times> string list) arg list" where
  "pageArgs = [Callback (\<lambda>(title, items). Inr (Str title)),
               Callback (\<lambda>(title, items). Inr (listItems items))]"

definition pageInstance :: "(string \<times> string list) closure" where
  "pageInstance =
     \<lparr>strings = pageStrings, args = pageArgs, references = Map.empty,
      componentInstance =
        [Element 100 ''main'' []
          [Element 101 ''h1'' [] [Text 102 ''Items''],
           Element 103 ''ul'' []
             [Element 0 ''li'' [] [Text 1 ''A''], Element 2 ''li'' [] [Text 3 ''B'']]]],
      created = 105\<rparr>"




text \<open>
  \<^verbatim>\<open>template`<button id=b>Hello, ${() => name}!</button>`\<close>, where the state the callback
  reads is the string \<open>name\<close>; and the closure that call leaves behind when \<open>name\<close> is
  \<open>World\<close> and no node existed before.
\<close>

definition greetingStrings :: "string list" where
  "greetingStrings = [''<button id=b>Hello, '', ''!</button>'']"

definition greetingArgs :: "string arg list" where
  "greetingArgs = [Callback (\<lambda>name. Inr (Str name))]"

definition greetingClosure :: "string closure" where
  "greetingClosure =
     \<lparr>strings = greetingStrings, args = greetingArgs, references = Map.empty,
      componentInstance = [Element 0 ''button'' [(''id'', ''b'')] [Text 1 ''Hello, World!'']],
      created = 2\<rparr>"

text \<open>
  \<^verbatim>\<open>template`<button id=b>Hello, ${"World"}!</button>`\<close> and
  \<^verbatim>\<open>template`<div><b data-slot-index=0></b>${"hi"}</div>`\<close>, whose values are strings.
\<close>

definition worldArgs :: "unit arg list" where
  "worldArgs = [Val (Str ''World'')]"

definition markedStrings :: "string list" where
  "markedStrings = [''<div><b data-slot-index=0></b>'', ''</div>'']"

definition markedArgs :: "unit arg list" where
  "markedArgs = [Val (Str ''hi'')]"

text \<open>
  \<^verbatim>\<open>template`<div ${() => on ? "id=x class=y" : ""}></div>`\<close>, where the state the callback
  reads is the flag \<open>on\<close>; and the closure that call leaves behind when \<open>on\<close> is true and
  no node existed before.
\<close>

definition attrStrings :: "string list" where
  "attrStrings = [''<div '', ''></div>'']"

definition attrArgs :: "bool arg list" where
  "attrArgs = [Callback (\<lambda>on. Inr (Str (if on then ''id=x class=y'' else '''')))]"

definition attrClosure :: "bool closure" where
  "attrClosure =
     \<lparr>strings = attrStrings, args = attrArgs, references = Map.empty,
      componentInstance = [Element 0 ''div'' [(''id'', ''x''), (''class'', ''y'')] []],
      created = 1\<rparr>"


section \<open>Properties of the markup assembly\<close>

lemma reduce_prefix:
  "reduce w strs vs i (p, refs)
     = (case reduce w strs vs i ([], refs) of
          (Inl e, t) \<Rightarrow> (Inl e, t)
        | (Inr s, t) \<Rightarrow> (Inr (p @ s), t))"
proof (induction vs arbitrary: i p refs)
  case Nil
  show ?case by simp
next
  case (Cons a vs)
  show ?case
  proof (cases "createReference w refs a i")
    case (Pair r refs')
    show ?thesis
    proof (cases r)
      case (Inl e)
      then show ?thesis using Pair by simp
    next
      case (Inr piece)
      show ?thesis
        using Cons.IH [of "Suc i" "p @ piece @ fragment strs (Suc i)" refs']
              Cons.IH [of "Suc i" "piece @ fragment strs (Suc i)" refs']
        by (simp add: Pair Inr split: prod.splits sum.splits)
    qed
  qed
qed

lemma reduce_append_Inl:
  "reduce w strs xs i (p, refs) = (Inl e, t) \<Longrightarrow> reduce w strs (xs @ ys) i (p, refs) = (Inl e, t)"
proof (induction xs arbitrary: i p refs)
  case Nil
  then show ?case by simp
next
  case (Cons a xs)
  show ?case
  proof (cases "createReference w refs a i")
    case (Pair r refs')
    show ?thesis
    proof (cases r)
      case (Inl e')
      then show ?thesis using Pair Cons.prems by simp
    next
      case (Inr piece)
      then have "reduce w strs xs (Suc i) (p @ piece @ fragment strs (Suc i), refs') = (Inl e, t)"
        using Pair Cons.prems by simp
      from Cons.IH [OF this] show ?thesis by (simp add: Pair Inr)
    qed
  qed
qed

lemma reduce_append_Inr:
  "reduce w strs xs i (p, refs) = (Inr s, t) \<Longrightarrow>
     reduce w strs (xs @ ys) i (p, refs) = reduce w strs ys (i + length xs) (s, t)"
proof (induction xs arbitrary: i p refs)
  case Nil
  then show ?case by simp
next
  case (Cons a xs)
  show ?case
  proof (cases "createReference w refs a i")
    case (Pair r refs')
    show ?thesis
    proof (cases r)
      case (Inl e')
      then show ?thesis using Pair Cons.prems by simp
    next
      case (Inr piece)
      then have "reduce w strs xs (Suc i) (p @ piece @ fragment strs (Suc i), refs') = (Inr s, t)"
        using Pair Cons.prems by simp
      from Cons.IH [OF this] show ?thesis by (simp add: Pair Inr)
    qed
  qed
qed

lemma reduce_table:
  "reduce w strs vs i (p, refs) = (Inr html, table) \<Longrightarrow>
     table j =
       (if i \<le> j \<and> j < i + length vs
        then (case vs ! (j - i) of
                Callback f \<Rightarrow> (case f w of Inr (Str s) \<Rightarrow> refs j | Inr v \<Rightarrow> Some v | Inl e \<Rightarrow> None)
              | Val v \<Rightarrow> refs j)
        else refs j)"
proof (induction vs arbitrary: i p refs)
  case Nil
  then show ?case by auto
next
  case (Cons a vs)
  have step: "\<And>piece refs'. createReference w refs a i = (Inr piece, refs') \<Longrightarrow>
      table j =
       (if Suc i \<le> j \<and> j < Suc i + length vs
        then (case vs ! (j - Suc i) of
                Callback f \<Rightarrow> (case f w of Inr (Str s) \<Rightarrow> refs' j | Inr v \<Rightarrow> Some v | Inl e \<Rightarrow> None)
              | Val v \<Rightarrow> refs' j)
        else refs' j)"
  proof -
    fix piece refs'
    assume "createReference w refs a i = (Inr piece, refs')"
    then have "reduce w strs vs (Suc i) (p @ piece @ fragment strs (Suc i), refs') = (Inr html, table)"
      using Cons.prems by simp
    then show "table j =
       (if Suc i \<le> j \<and> j < Suc i + length vs
        then (case vs ! (j - Suc i) of
                Callback f \<Rightarrow> (case f w of Inr (Str s) \<Rightarrow> refs' j | Inr v \<Rightarrow> Some v | Inl e \<Rightarrow> None)
              | Val v \<Rightarrow> refs' j)
        else refs' j)"
      by (rule Cons.IH)
  qed
  show ?case
  proof (cases a)
    case (Val v)
    obtain piece where "createReference w refs a i = (Inr piece, refs)"
      using Val by (cases v) simp_all
    from step [OF this] show ?thesis
      using Val by (auto simp: nth_Cons' Suc_diff_le split: arg.splits sum.splits jsval.splits)
  next
    case (Callback f)
    show ?thesis
    proof (cases "f w")
      case (Inl e)
      then show ?thesis using Callback Cons.prems by simp
    next
      case (Inr v)
      show ?thesis
      proof (cases "isString v")
        case True
        then obtain s where v: "v = Str s" by (cases v) simp_all
        have "createReference w refs a i = (Inr s, refs)"
          using Callback Inr v by simp
        from step [OF this] show ?thesis
          using Callback Inr v
          by (auto simp: nth_Cons' Suc_diff_le split: arg.splits sum.splits jsval.splits)
      next
        case False
        have "createReference w refs a i = (Inr (marker i), refs(i \<mapsto> v))"
          using Callback Inr False by (cases v) simp_all
        from step [OF this] show ?thesis
          using Callback Inr False
          by (cases v) (auto simp: nth_Cons' Suc_diff_le split: arg.splits sum.splits jsval.splits)
      qed
    qed
  qed
qed

lemma reduce_spliced:
  assumes "i < length vals"
    and "reduce w strs vals 0 (p, refs) = (Inr html, table)"
  shows "\<exists>before table' piece table'' rest.
           reduce w strs (take i vals) 0 (p, refs) = (Inr before, table') \<and>
           createReference w table' (vals ! i) i = (Inr piece, table'') \<and>
           html = before @ piece @ rest"
proof -
  let ?tail = "(vals ! i) # drop (Suc i) vals"
  have split: "take i vals @ ?tail = vals"
    using assms(1) by (simp add: id_take_nth_drop [symmetric])
  have len: "0 + length (take i vals) = i" using assms(1) by simp
  obtain r0 t0 where pre: "reduce w strs (take i vals) 0 (p, refs) = (r0, t0)"
    by (cases "reduce w strs (take i vals) 0 (p, refs)")
  obtain before where r0: "r0 = Inr before"
  proof (cases r0)
    case (Inl e)
    then have "reduce w strs (take i vals @ ?tail) 0 (p, refs) = (Inl e, t0)"
      using pre reduce_append_Inl by metis
    then show ?thesis using assms(2) by (simp only: split) simp
  next
    case (Inr before)
    then show ?thesis using that by simp
  qed
  have "reduce w strs (take i vals @ ?tail) 0 (p, refs)
          = reduce w strs ?tail (0 + length (take i vals)) (before, t0)"
    using pre r0 reduce_append_Inr by metis
  then have step: "reduce w strs ?tail i (before, t0) = (Inr html, table)"
    using assms(2) by (simp only: split len)
  obtain r1 t1 where cr: "createReference w t0 (vals ! i) i = (r1, t1)"
    by (cases "createReference w t0 (vals ! i) i")
  obtain piece where r1: "r1 = Inr piece"
    using step cr by (cases r1) simp_all
  have "reduce w strs (drop (Suc i) vals) (Suc i) (before @ piece @ fragment strs (Suc i), t1)
          = (Inr html, table)"
    using step cr r1 by simp
  then obtain s where "html = (before @ piece @ fragment strs (Suc i)) @ s"
    using reduce_prefix [of w strs "drop (Suc i) vals" "Suc i" "before @ piece @ fragment strs (Suc i)" t1]
    by (auto split: prod.splits sum.splits)
  then have "html = before @ piece @ (fragment strs (Suc i) @ s)" by simp
  then show ?thesis using pre r0 cr r1 by blast
qed

lemma digit_char: "k < 10 \<Longrightarrow> of_char (''0123456789'' ! k) - (48::nat) = k"
proof -
  assume "k < 10"
  then have "k \<in> {0, 1, 2, 3, 4, 5, 6, 7, 8, 9}" by auto
  then show ?thesis by auto
qed

lemma digitsValue_snoc: "digitsValue (s @ [c]) = 10 * digitsValue s + (of_char c - 48)"
  by (simp add: digitsValue_def)

lemma digitsValue_decimal: "digitsValue (decimal n) = n"
proof (induction n rule: decimal.induct)
  case (1 n)
  show ?case
  proof (cases "n < 10")
    case True
    then show ?thesis
      using digit_char [of n] by (simp add: decimal.simps [of n] digitsValue_def)
  next
    case False
    then have "digitsValue (decimal n) = 10 * (n div 10) + n mod 10"
      using "1.IH" digit_char [of "n mod 10"]
      by (simp add: decimal.simps [of n] digitsValue_snoc)
    then show ?thesis by simp
  qed
qed

lemma slotIndex_decimal: "slotIndex [(''data-slot-index'', decimal i)] = Number i"
  by (simp add: slotIndex_def digitsValue_decimal)

text \<open>
  The placeholder \<open>createReference\<close> writes for index \<open>i\<close>, once parsed, is an element
  the selector \<^verbatim>\<open>b[data-slot-index]\<close> finds, and \<open>data("slotIndex")\<close> reads \<open>i\<close> back
  from it.
\<close>

theorem marker_index_round_trip:
  "selected ''b'' [(''data-slot-index'', decimal i)] \<and>
   slotIndex [(''data-slot-index'', decimal i)] = Number i"
  by (simp add: selected_def slotIndex_def digitsValue_decimal)

section \<open>Properties of the insertion of nodes\<close>

lemma ident_in_identities: "ident x \<in> set (identities x)"
  by (cases x) simp_all

lemma below_in_identities:
  "set (concat (map identities (childNodes x))) \<subseteq> set (identities x)"
  by (cases x) auto

lemma identities_member:
  "x \<in> set xs \<Longrightarrow> set (identities x) \<subseteq> set (concat (map identities xs))"
  by auto

lemma concat_map_single: "(\<And>c. c \<in> set cs \<Longrightarrow> F c = [c]) \<Longrightarrow> concat (map F cs) = cs"
  by (induction cs) simp_all

lemma without_same:
  "set ids \<inter> set (concat (map identities (childNodes x))) = {} \<Longrightarrow> without ids x = x"
proof (induction x)
  case (Text i s)
  show ?case by simp
next
  case (Element i t as cs)
  have "\<And>c. c \<in> set cs \<Longrightarrow> (if ident c \<in> set ids then [] else [without ids c]) = [c]"
  proof -
    fix c
    assume c: "c \<in> set cs"
    have sub: "set (identities c) \<subseteq> set (concat (map identities cs))"
      using c by auto
    have a: "ident c \<notin> set ids"
      using Element.prems sub ident_in_identities [of c] by auto
    have "set (concat (map identities (childNodes c))) \<subseteq> set (concat (map identities cs))"
      using below_in_identities [of c] sub by (rule subset_trans)
    then have "set ids \<inter> set (concat (map identities (childNodes c))) = {}"
      using Element.prems by (simp only: childNodes.simps) blast
    then have "without ids c = c" using Element.IH c by simp
    then show "(if ident c \<in> set ids then [] else [without ids c]) = [c]" using a by simp
  qed
  then have "concat (map (\<lambda>c. if ident c \<in> set ids then [] else [without ids c]) cs) = cs"
    by (rule concat_map_single)
  then show ?case by simp
qed

lemma put_identities:
  "set (identities (put k new x)) \<subseteq> set (identities x) \<union> set (concat (map identities new))"
proof (induction x)
  case (Text i s)
  show ?case by simp
next
  case (Element i t as cs)
  then show ?case by (auto split: if_splits)
qed

lemma fill_same:
  "dom g \<inter> set (concat (map identities (childNodes x))) = {} \<Longrightarrow> fill g x = x"
proof (induction x)
  case (Text i s)
  show ?case by simp
next
  case (Element i t as cs)
  have "\<And>c. c \<in> set cs \<Longrightarrow> (case g (ident c) of Some new \<Rightarrow> new | None \<Rightarrow> [fill g c]) = [c]"
  proof -
    fix c
    assume c: "c \<in> set cs"
    have sub: "set (identities c) \<subseteq> set (concat (map identities cs))"
      using c by auto
    have "ident c \<notin> dom g"
      using Element.prems sub ident_in_identities [of c] by auto
    then have a: "g (ident c) = None" by auto
    have "set (concat (map identities (childNodes c))) \<subseteq> set (concat (map identities cs))"
      using below_in_identities [of c] sub by (rule subset_trans)
    then have "dom g \<inter> set (concat (map identities (childNodes c))) = {}"
      using Element.prems by (simp only: childNodes.simps) blast
    then have "fill g c = c" using Element.IH c by simp
    then show "(case g (ident c) of Some new \<Rightarrow> new | None \<Rightarrow> [fill g c]) = [c]"
      using a by simp
  qed
  then have "concat (map (\<lambda>c. case g (ident c) of Some new \<Rightarrow> new | None \<Rightarrow> [fill g c]) cs) = cs"
    by (rule concat_map_single)
  then show ?case by simp
qed

lemma concat_map_concat_map:
  "concat (map F (concat (map G cs))) = concat (map (\<lambda>c. concat (map F (G c))) cs)"
  by (induction cs) simp_all

lemma fill_put:
  assumes "\<And>y. y \<in> set new \<Longrightarrow> g (ident y) = None \<and> fill g y = y"
  shows "fill g (put k new x) = fill (g(k \<mapsto> new)) x"
proof (induction x)
  case (Text i s)
  show ?case by simp
next
  case (Element i t as cs)
  let ?F = "\<lambda>c. case g (ident c) of Some m \<Rightarrow> m | None \<Rightarrow> [fill g c]"
  let ?G = "\<lambda>c. if ident c = k then new else [put k new c]"
  let ?H = "\<lambda>c. case (g(k \<mapsto> new)) (ident c) of Some m \<Rightarrow> m | None \<Rightarrow> [fill (g(k \<mapsto> new)) c]"
  have new: "concat (map ?F new) = new"
  proof -
    have "\<And>y. y \<in> set new \<Longrightarrow> ?F y = [y]"
      using assms by simp
    then show ?thesis by (rule concat_map_single)
  qed
  have ident_put: "\<And>c. ident (put k new c) = ident c"
  proof -
    fix c show "ident (put k new c) = ident c" by (cases c) simp_all
  qed
  have "\<And>c. c \<in> set cs \<Longrightarrow> concat (map ?F (?G c)) = ?H c"
  proof -
    fix c
    assume c: "c \<in> set cs"
    show "concat (map ?F (?G c)) = ?H c"
    proof (cases "ident c = k")
      case True
      then show ?thesis using new by simp
    next
      case False
      have 1: "?G c = [put k new c]" using False by simp
      have 2: "(g(k \<mapsto> new)) (ident c) = g (ident c)" using False by simp
      have 3: "fill g (put k new c) = fill (g(k \<mapsto> new)) c" by (rule Element.IH [OF c])
      show ?thesis by (simp only: 1 2 3 list.map concat.simps append_Nil2 ident_put)
    qed
  qed
  then have "map (\<lambda>c. concat (map ?F (?G c))) cs = map ?H cs" by simp
  then have "concat (map ?F (concat (map ?G cs))) = concat (map ?H cs)"
    by (simp only: concat_map_concat_map)
  then show ?case by (simp only: put.simps fill.simps)
qed

lemma lastOnly_same: "distinct (map ident xs) \<Longrightarrow> lastOnly xs = xs"
  by (induction xs) auto

lemma separate_top:
  "distinct (concat (map identities xs)) \<Longrightarrow> x \<in> set xs \<Longrightarrow>
     set (map ident xs) \<inter> set (concat (map identities (childNodes x))) = {}"
proof (induction xs)
  case Nil
  then show ?case by simp
next
  case (Cons v vs)
  have d: "distinct (identities v)" "distinct (concat (map identities vs))"
    and dis: "set (identities v) \<inter> set (concat (map identities vs)) = {}"
    using Cons.prems(1) by simp_all
  have top: "\<And>y. y \<in> set vs \<Longrightarrow> ident y \<in> set (concat (map identities vs))"
    using ident_in_identities by fastforce
  show ?case
  proof (cases "x = v")
    case True
    have "ident v \<notin> set (concat (map identities (childNodes v)))"
      using d(1) by (cases v) simp_all
    moreover have "\<And>y. y \<in> set vs \<Longrightarrow> ident y \<notin> set (concat (map identities (childNodes v)))"
      using top dis below_in_identities [of v] by blast
    ultimately show ?thesis using True by auto
  next
    case False
    then have x: "x \<in> set vs" using Cons.prems(2) by simp
    have a: "set (map ident vs) \<inter> set (concat (map identities (childNodes x))) = {}"
      using Cons.IH [OF d(2) x] .
    have "set (concat (map identities (childNodes x))) \<subseteq> set (concat (map identities vs))"
      using below_in_identities [of x] x by fastforce
    then have "ident v \<notin> set (concat (map identities (childNodes x)))"
      using dis ident_in_identities [of v] by blast
    then show ?thesis using a by auto
  qed
qed

lemma separate_distinct_top:
  "distinct (concat (map identities xs)) \<Longrightarrow> distinct (map ident xs)"
proof (induction xs)
  case Nil
  show ?case by simp
next
  case (Cons v vs)
  have "\<And>y. y \<in> set vs \<Longrightarrow> ident y \<in> set (concat (map identities vs))"
    using ident_in_identities by fastforce
  then have "ident v \<notin> ident ` set vs"
    using Cons.prems ident_in_identities [of v] by auto
  then show ?case using Cons by simp
qed

lemma moved_same:
  assumes "distinct (concat (map identities new))"
    and "set taken \<inter> set (concat (map identities new)) = {}"
  shows "moved taken new = new"
proof -
  have "\<And>x. x \<in> set new \<Longrightarrow> without (taken @ map ident new) x = x"
  proof -
    fix x
    assume x: "x \<in> set new"
    have a: "set (map ident new) \<inter> set (concat (map identities (childNodes x))) = {}"
      using separate_top [OF assms(1) x] .
    have "set (concat (map identities (childNodes x))) \<subseteq> set (concat (map identities new))"
      using below_in_identities [of x] x by fastforce
    then have "set taken \<inter> set (concat (map identities (childNodes x))) = {}"
      using assms(2) by blast
    then have "set (taken @ map ident new) \<inter> set (concat (map identities (childNodes x))) = {}"
      using a by auto
    then show "without (taken @ map ident new) x = x" by (rule without_same)
  qed
  then have "map (without (taken @ map ident new)) new = new"
    by (simp add: map_idI)
  then show ?thesis
    using lastOnly_same [OF separate_distinct_top [OF assms(1)]] by (simp add: moved_def)
qed

lemma replaceWith_put:
  assumes "set (concat (map identities new)) \<inter> set (concat (map identities roots)) = {}"
  shows "replaceWith k new roots = map (put k new) roots"
proof -
  have "\<And>r. r \<in> set roots \<Longrightarrow> without (map ident new) r = r"
  proof -
    fix r
    assume r: "r \<in> set roots"
    have "set (map ident new) \<subseteq> set (concat (map identities new))"
      using ident_in_identities by fastforce
    moreover have "set (concat (map identities (childNodes r))) \<subseteq> set (concat (map identities roots))"
      using below_in_identities [of r] r by fastforce
    ultimately have "set (map ident new) \<inter> set (concat (map identities (childNodes r))) = {}"
      using assms by blast
    then show "without (map ident new) r = r" by (rule without_same)
  qed
  then show ?thesis by (simp add: replaceWith_def)
qed

lemma fill_empty: "fill Map.empty x = x"
  by (rule fill_same) simp

lemma dom_placed: "dom (placed slots news) \<subseteq> fst ` set slots"
proof -
  have "dom (map_of (zip (map fst slots) news)) \<subseteq> set (map fst slots)"
    by (metis dom_map_of_conv_image_fst set_zip_leftD image_subsetI fst_conv prod.collapse set_map)
  then show ?thesis by (simp add: placed_def)
qed

lemma insertions_Cons:
  "insertions f (as # rest) n = (Inr news, n') \<Longrightarrow>
     \<exists>value n1 news'. f as n = (Inr value, n1) \<and> insertions f rest n1 = (Inr news', n') \<and>
        news = value # news'"
  by (auto split: prod.splits sum.splits)

lemma insertions_length: "insertions f ass n = (Inr news, n') \<Longrightarrow> length news = length ass"
proof (induction ass arbitrary: n news)
  case Nil
  then show ?case by simp
next
  case (Cons as rest)
  from insertions_Cons [OF Cons.prems] obtain v n1 news' where
    "insertions f rest n1 = (Inr news', n')" "news = v # news'" by blast
  then show ?case using Cons.IH by simp
qed

lemma each_fill:
  assumes "insertions f (map snd slots) n = (Inr news, n')"
    and "distinct (concat (map identities (concat news)))"
    and "set (concat (map identities (concat news))) \<inter> set (concat (map identities roots)) = {}"
    and "set (concat (map identities (concat news))) \<inter> set taken = {}"
    and "set (concat (map identities (concat news))) \<inter> fst ` set slots = {}"
  shows "each f slots (roots, taken) n = (Inr (map (fill (placed slots news)) roots), n')"
  using assms
proof (induction slots arbitrary: roots taken n news)
  case Nil
  then show ?case by (simp add: placed_def fill_empty)
next
  case (Cons slot slots)
  obtain k as where slot: "slot = (k, as)" by (cases slot)
  from Cons.prems(1) have "insertions f (as # map snd slots) n = (Inr news, n')"
    by (simp add: slot)
  from insertions_Cons [OF this] obtain v n1 news' where
    f: "f as n = (Inr v, n1)" and rest: "insertions f (map snd slots) n1 = (Inr news', n')"
    and news: "news = v # news'"
    by blast
  let ?V = "set (concat (map identities v))"
  let ?N = "set (concat (map identities (concat news')))"
  have dv: "distinct (concat (map identities v))"
    and dn: "distinct (concat (map identities (concat news')))"
    and vn: "?V \<inter> ?N = {}"
    using Cons.prems(2) by (simp_all add: news)
  have all: "set (concat (map identities (concat news))) = ?V \<union> ?N"
    by (simp add: news)
  have vr: "?V \<inter> set (concat (map identities roots)) = {}"
    and nr: "?N \<inter> set (concat (map identities roots)) = {}"
    using Cons.prems(3) unfolding all by blast+
  have vt: "?V \<inter> set taken = {}" and nt: "?N \<inter> set taken = {}"
    using Cons.prems(4) unfolding all by blast+
  have "fst ` set slots \<subseteq> fst ` set (slot # slots)" by auto
  then have vs: "?V \<inter> fst ` set slots = {}" and ns: "?N \<inter> fst ` set slots = {}"
    using Cons.prems(5) unfolding all by blast+
  have mv: "moved taken v = v"
    using moved_same [OF dv] vt by blast
  have rw: "replaceWith k v roots = map (put k v) roots"
    by (rule replaceWith_put [OF vr])
  have step: "each f (slot # slots) (roots, taken) n
                = each f slots (map (put k v) roots, taken @ map ident v) n1"
    by (simp add: slot f mv rw)
  have r': "?N \<inter> set (concat (map identities (map (put k v) roots))) = {}"
  proof -
    have "set (concat (map identities (map (put k v) roots)))
            \<subseteq> set (concat (map identities roots)) \<union> ?V"
      using put_identities [of k v] by fastforce
    then show ?thesis using nr vn by blast
  qed
  have t': "?N \<inter> set (taken @ map ident v) = {}"
  proof -
    have a: "set (map ident v) \<subseteq> ?V" using ident_in_identities by fastforce
    have b: "set (taken @ map ident v) = set taken \<union> set (map ident v)" by simp
    show ?thesis unfolding b using nt vn a by blast
  qed
  have ih: "each f slots (map (put k v) roots, taken @ map ident v) n1
              = (Inr (map (fill (placed slots news')) (map (put k v) roots)), n')"
    by (rule Cons.IH [OF rest dn r' t' ns])
  have ok: "\<And>y. y \<in> set v \<Longrightarrow>
              placed slots news' (ident y) = None \<and> fill (placed slots news') y = y"
  proof -
    fix y
    assume y: "y \<in> set v"
    have sub: "set (identities y) \<subseteq> ?V" using y by auto
    have dis: "dom (placed slots news') \<inter> ?V = {}"
      using dom_placed [of slots news'] vs by blast
    have "ident y \<notin> dom (placed slots news')"
      using dis sub ident_in_identities [of y] by blast
    then have a: "placed slots news' (ident y) = None" by auto
    have "set (concat (map identities (childNodes y))) \<subseteq> ?V"
      using below_in_identities [of y] sub by (rule subset_trans)
    then have "dom (placed slots news') \<inter> set (concat (map identities (childNodes y))) = {}"
      using dis by blast
    then have "fill (placed slots news') y = y" by (rule fill_same)
    then show "placed slots news' (ident y) = None \<and> fill (placed slots news') y = y"
      using a by simp
  qed
  have pl: "placed (slot # slots) news = (placed slots news')(k \<mapsto> v)"
    by (simp add: placed_def slot news)
  have "map (fill (placed slots news')) (map (put k v) roots)
          = map (fill (placed (slot # slots) news)) roots"
    using fill_put [OF ok, of v k] by (simp add: pl)
  then show ?case using step ih by simp
qed

lemma subseq_concat_map:
  "(\<And>c. c \<in> set cs \<Longrightarrow> subseq (F c) (G c)) \<Longrightarrow> subseq (concat (map F cs)) (concat (map G cs))"
proof (induction cs)
  case Nil
  show ?case by simp
next
  case (Cons c cs)
  have "subseq (F c) (G c)" using Cons.prems by simp
  moreover have "subseq (concat (map F cs)) (concat (map G cs))"
    using Cons.IH Cons.prems by simp
  ultimately show ?case by (simp add: list_emb_append_mono)
qed

lemma matched_subseq: "subseq (map fst (matched x)) (identities x)"
proof (induction x)
  case (Text i s)
  show ?case by simp
next
  case (Element i t as cs)
  have "subseq (concat (map (\<lambda>c. map fst (matched c)) cs)) (concat (map identities cs))"
    using Element.IH by (rule subseq_concat_map)
  then have below: "subseq (map fst (concat (map matched cs))) (concat (map identities cs))"
    by (simp add: map_concat o_def)
  show ?case
  proof (cases "selected t as")
    case True
    then show ?thesis using below by simp
  next
    case False
    then show ?thesis using below by (simp add: list_emb_Cons)
  qed
qed

lemma findSlots_subseq: "subseq (map fst (findSlots roots)) (concat (map identities roots))"
proof -
  have root: "\<And>r. subseq (map fst (concat (map matched (childNodes r)))) (identities r)"
  proof -
    fix r
    show "subseq (map fst (concat (map matched (childNodes r)))) (identities r)"
    proof (cases r)
      case (Text i s)
      then show ?thesis by simp
    next
      case (Element i t as cs)
      have "subseq (concat (map (\<lambda>c. map fst (matched c)) cs)) (concat (map identities cs))"
        using matched_subseq by (intro subseq_concat_map)
      then show ?thesis using Element by (simp add: map_concat o_def list_emb_Cons)
    qed
  qed
  have eq: "map fst (findSlots roots)
            = concat (map (\<lambda>r. map fst (concat (map matched (childNodes r)))) roots)"
    by (induction roots) (simp_all add: findSlots_def contents_def)
  have "subseq (concat (map (\<lambda>r. map fst (concat (map matched (childNodes r)))) roots))
               (concat (map identities roots))"
    using root by (intro subseq_concat_map)
  then show ?thesis by (simp only: eq)
qed

lemma findSlots_distinct:
  "distinct (concat (map identities roots)) \<Longrightarrow> distinct (map fst (findSlots roots))"
  using findSlots_subseq [of roots] subseqs_distinctD [of "map fst (findSlots roots)"]
  by (simp add: in_set_subseqs)

lemma findSlots_identities: "fst ` set (findSlots roots) \<subseteq> set (concat (map identities roots))"
proof
  fix k
  assume "k \<in> fst ` set (findSlots roots)"
  then have "k \<in> set (map fst (findSlots roots))" by simp
  with findSlots_subseq [of roots] show "k \<in> set (concat (map identities roots))"
    by (rule list_emb_set) simp
qed

lemma insertions_nth:
  "insertions f ass n = (Inr news, n') \<Longrightarrow> p < length ass \<Longrightarrow>
     \<exists>m m'. f (ass ! p) m = (Inr (news ! p), m')"
proof (induction ass arbitrary: n news p)
  case Nil
  then show ?case by simp
next
  case (Cons as rest)
  from insertions_Cons [OF Cons.prems(1)] obtain v n1 news' where
    f: "f as n = (Inr v, n1)" and rest: "insertions f rest n1 = (Inr news', n')"
    and news: "news = v # news'"
    by blast
  show ?case
  proof (cases p)
    case 0
    then show ?thesis using f news by auto
  next
    case (Suc q)
    then have "q < length rest" using Cons.prems(2) by simp
    from Cons.IH [OF rest this] show ?thesis using Suc news by simp
  qed
qed

lemma placed_nth:
  assumes "distinct (map fst slots)" and "length news = length slots" and "p < length slots"
  shows "placed slots news (fst (slots ! p)) = Some (news ! p)"
proof -
  have "map_of (zip (map fst slots) news) (map fst slots ! p) = Some (news ! p)"
    using assms by (intro map_of_zip_nth) simp_all
  then show ?thesis using assms(3) by (simp add: placed_def)
qed

lemma placed_content:
  assumes "insertions f (map snd slots) n = (Inr news, n')"
    and "distinct (map fst slots)"
    and "(k, as) \<in> set slots"
    and "\<And>m. fst (f as m) = Inr new"
  shows "placed slots news k = Some new"
proof -
  obtain p where p: "p < length slots" and at: "slots ! p = (k, as)"
    using assms(3) by (auto simp: in_set_conv_nth)
  have len: "length news = length slots"
    using insertions_length [OF assms(1)] by simp
  have "p < length (map snd slots)" using p by simp
  from insertions_nth [OF assms(1) this] obtain m m' where
    "f (map snd slots ! p) m = (Inr (news ! p), m')" by blast
  then have "fst (f as m) = Inr (news ! p)" using p at by simp
  then have "news ! p = new" using assms(4) [of m] by simp
  then show ?thesis using placed_nth [OF assms(2) len p] at by simp
qed

section \<open>Properties of the build\<close>

lemma buildComponent_each:
  assumes "reduce w (strings c) (args c) 0 (fragment (strings c) 0, references c) = (Inr html, table)"
    and "parseHTML h html = Inr parsed"
    and "creates (created c) parsed = (component, n1)"
  shows "buildComponent h w c
       = (case each (slotContent h w (args c) table) (findSlots component) (component, []) n1 of
            (Inl thrown, n) \<Rightarrow> (Inl thrown, c\<lparr>references := table, created := n\<rparr>)
          | (Inr resolved, n) \<Rightarrow> (Inr resolved, c\<lparr>references := Map.empty, created := n\<rparr>))"
  by (simp add: buildComponent_def assms)

lemma build_fill:
  assumes "reduce w (strings c) (args c) 0 (fragment (strings c) 0, references c) = (Inr html, table)"
    and "parseHTML h html = Inr parsed"
    and "creates (created c) parsed = (component, n1)"
    and "insertions (slotContent h w (args c) table) (map snd (findSlots component)) n1
           = (Inr news, n2)"
    and "separate (component @ concat news)"
  shows "buildComponent h w c
       = (Inr (map (fill (placed (findSlots component) news)) component),
          c\<lparr>references := Map.empty, created := n2\<rparr>)"
proof -
  let ?C = "set (concat (map identities component))"
  let ?N = "set (concat (map identities (concat news)))"
  have d: "distinct (concat (map identities (concat news)))" and dis: "?N \<inter> ?C = {}"
    using assms(5) by (auto simp: separate_def)
  have t: "?N \<inter> set [] = {}" by simp
  have s: "?N \<inter> fst ` set (findSlots component) = {}"
    using findSlots_identities [of component] dis by blast
  have "each (slotContent h w (args c) table) (findSlots component) (component, []) n1
          = (Inr (map (fill (placed (findSlots component) news)) component), n2)"
    by (rule each_fill [OF assms(4) d dis t s])
  then show ?thesis by (simp add: buildComponent_each [OF assms(1,2,3)])
qed

lemma separate_slots:
  "separate (component @ news) \<Longrightarrow> distinct (map fst (findSlots component))"
  by (rule findSlots_distinct) (simp add: separate_def)

lemma buildComponent_frame:
  "strings (snd (buildComponent h w c)) = strings c \<and>
   args (snd (buildComponent h w c)) = args c \<and>
   componentInstance (snd (buildComponent h w c)) = componentInstance c"
  by (simp add: buildComponent_def split: prod.splits sum.splits)

section \<open>A node or an array as interpolated value\<close>

text \<open>
  Claim C1, as amended. Take a build that runs to its end, in which the parsed component
  and the nodes inserted into it are separate. When the interpolated value at index \<open>i\<close>
  is a jQuery object or an array, \<open>createReference\<close> returns the placeholder carrying
  \<open>i\<close> and leaves the table as it is; the markup holds that placeholder after the markup
  of the values before \<open>i\<close>; the table has no entry for \<open>i\<close> when the placeholders are
  resolved (it had none when the build began: no build stores an entry under the index
  of a value that is not a callback); \<open>args[i]\<close> is read and \<open>getReferenceValue\<close>
  returns it; what the \<open>each\<close> callback inserts for a placeholder carrying \<open>i\<close> is the
  list of the very nodes the value holds. The component built is the parsed component
  with every placeholder that \<open>find\<close> has found, and that is not inside another one,
  replaced where it stands by the nodes inserted for it, whatever the depth of the
  placeholder and whatever else the template holds; for each placeholder found that
  carries \<open>i\<close> these are the nodes the value holds, identities included.
\<close>

theorem node_value_replaces_found_placeholder:
  assumes "i < length (args c)"
    and "args c ! i = Val v"
    and "nodeLike v"
    and "references c i = None"
    and "reduce w (strings c) (args c) 0 (fragment (strings c) 0, references c) = (Inr html, table)"
    and "parseHTML h html = Inr parsed"
    and "creates (created c) parsed = (component, n1)"
    and "insertions (slotContent h w (args c) table) (map snd (findSlots component)) n1
           = (Inr news, n2)"
    and "separate (component @ concat news)"
  shows "createReference w r (args c ! i) i = (Inr (marker i), r) \<and>
         (\<exists>before table' rest.
            reduce w (strings c) (take i (args c)) 0 (fragment (strings c) 0, references c)
              = (Inr before, table') \<and>
            html = before @ marker i @ rest) \<and>
         table i = None \<and>
         argsAt h (args c) (Number i) = Inr (args c ! i) \<and>
         getReferenceValue table (args c ! i) (Number i) = args c ! i \<and>
         (\<forall>as n. slotIndex as = Number i \<longrightarrow>
            slotContent h w (args c) table as n = (Inr (held v), n)) \<and>
         fst (buildComponent h w c)
           = Inr (map (fill (placed (findSlots component) news)) component) \<and>
         (\<forall>(k, as) \<in> set (findSlots component). slotIndex as = Number i \<longrightarrow>
            placed (findSlots component) news k = Some (held v))"
proof -
  have cr: "\<And>r. createReference w r (args c ! i) i = (Inr (marker i), r)"
    using assms(2,3) by (cases v) simp_all
  have tab: "table i = None"
    using reduce_table [OF assms(5), of i] assms(1,2,4) by simp
  have html: "\<exists>before table' rest.
            reduce w (strings c) (take i (args c)) 0 (fragment (strings c) 0, references c)
              = (Inr before, table') \<and>
            html = before @ marker i @ rest"
  proof -
    from reduce_spliced [OF assms(1,5)] obtain before table' piece table'' rest where
      a: "reduce w (strings c) (take i (args c)) 0 (fragment (strings c) 0, references c)
           = (Inr before, table')"
      and b: "createReference w table' (args c ! i) i = (Inr piece, table'')"
      and d: "html = before @ piece @ rest"
      by blast
    have "piece = marker i" using b cr [of table'] by simp
    then show ?thesis using a d by blast
  qed
  have at: "argsAt h (args c) (Number i) = Inr (args c ! i)"
    using assms(1) by (simp add: argsAt_def)
  have get: "getReferenceValue table (args c ! i) (Number i) = args c ! i"
    using tab by (simp add: getReferenceValue_def)
  have slot: "\<And>as n. slotIndex as = Number i \<Longrightarrow>
                slotContent h w (args c) table as n = (Inr (held v), n)"
    using assms(2,3) at get by (cases v) (simp_all add: slotContent_def)
  have build: "fst (buildComponent h w c)
           = Inr (map (fill (placed (findSlots component) news)) component)"
    using build_fill [OF assms(5,6,7,8,9)] by simp
  have each: "\<forall>(k, as) \<in> set (findSlots component). slotIndex as = Number i \<longrightarrow>
            placed (findSlots component) news k = Some (held v)"
  proof (intro ballI, clarify)
    fix k as
    assume m: "(k, as) \<in> set (findSlots component)" and x: "slotIndex as = Number i"
    have "\<And>m. fst (slotContent h w (args c) table as m) = Inr (held v)"
      using slot [OF x] by simp
    then show "placed (findSlots component) news k = Some (held v)"
      by (rule placed_content [OF assms(8) separate_slots [OF assms(9)] m])
  qed
  show ?thesis using cr html tab at get slot build each by blast
qed

theorem node_value_replaces_found_placeholder_witness:
  "createReference () Map.empty (args nestedClosure ! 0) 0 = (Inr (marker 0), Map.empty) \<and>
   slotContent exampleHost () (args nestedClosure) Map.empty [(''data-slot-index'', ''0'')] 13
     = (Inr [nextButton], 13) \<and>
   fst (buildComponent exampleHost () nestedClosure)
     = Inr [Element 10 ''main'' [] [Element 11 ''div'' [] [nextButton]]] \<and>
   fst (buildComponent exampleHost () pairClosure)
     = Inr [Element 10 ''div'' [] [nextButton, backButton]]"
proof -
  let ?nested = "[Element 10 ''main'' [] [Element 11 ''div'' []
                   [Element 12 ''b'' [(''data-slot-index'', ''0'')] []]]]"
  let ?pair = "[Element 10 ''div'' []
                 [Element 11 ''b'' [(''data-slot-index'', ''0'')] [],
                  Element 12 ''b'' [(''data-slot-index'', ''1'')] []]]"
  have a1: "0 < length (args nestedClosure)" by (simp add: nestedClosure_def buttonArgs_def)
  have a2: "args nestedClosure ! 0 = Val (JQ [nextButton])"
    by (simp add: nestedClosure_def buttonArgs_def)
  have a3: "nodeLike (JQ [nextButton])" by simp
  have a4: "references nestedClosure 0 = None" by (simp add: nestedClosure_def)
  have a5: "reduce () (strings nestedClosure) (args nestedClosure) 0
              (fragment (strings nestedClosure) 0, references nestedClosure)
          = (Inr ''<main><div><b data-slot-index=0></b></div></main>'', Map.empty)"
    by (simp add: nestedClosure_def buttonArgs_def fragment_def marker_def decimal.simps)
  have a6: "parseHTML exampleHost ''<main><div><b data-slot-index=0></b></div></main>''
          = Inr [HElement ''main'' []
                  [HElement ''div'' [] [HElement ''b'' [(''data-slot-index'', ''0'')] []]]]"
    by code_simp
  have a7: "creates (created nestedClosure)
              [HElement ''main'' []
                [HElement ''div'' [] [HElement ''b'' [(''data-slot-index'', ''0'')] []]]]
          = (?nested, 13)"
    by code_simp
  have a8: "insertions (slotContent exampleHost () (args nestedClosure) Map.empty)
              (map snd (findSlots ?nested)) 13 = (Inr [[nextButton]], 13)"
    by code_simp
  have a9: "separate (?nested @ concat [[nextButton]])" by code_simp
  note t = node_value_replaces_found_placeholder
    [where c = nestedClosure and i = 0 and v = "JQ [nextButton]" and w = "()" and r = Map.empty
       and h = exampleHost and table = Map.empty and component = ?nested and ?n1.0 = 13
       and news = "[[nextButton]]" and ?n2.0 = 13,
     OF a1 a2 a3 a4 a5 a6 a7 a8 a9]
  have r1: "createReference () Map.empty (args nestedClosure ! 0) 0 = (Inr (marker 0), Map.empty)"
    by (rule t [THEN conjunct1])
  have x: "slotIndex [(''data-slot-index'', ''0'')] = Number 0" by code_simp
  have r2: "slotContent exampleHost () (args nestedClosure) Map.empty [(''data-slot-index'', ''0'')] 13
              = (Inr (held (JQ [nextButton])), 13)"
    using t [THEN conjunct2, THEN conjunct2, THEN conjunct2, THEN conjunct2, THEN conjunct2,
             THEN conjunct1, rule_format, OF x] .
  have r3: "fst (buildComponent exampleHost () nestedClosure)
              = Inr (map (fill (placed (findSlots ?nested) [[nextButton]])) ?nested)"
    by (rule t [THEN conjunct2, THEN conjunct2, THEN conjunct2, THEN conjunct2, THEN conjunct2,
                THEN conjunct2, THEN conjunct1])
  have e3: "map (fill (placed (findSlots ?nested) [[nextButton]])) ?nested
              = [Element 10 ''main'' [] [Element 11 ''div'' [] [nextButton]]]"
    by code_simp
  have b1: "0 < length (args pairClosure)" by (simp add: pairClosure_def)
  have b2: "args pairClosure ! 0 = Val (JQ [nextButton])" by (simp add: pairClosure_def)
  have b4: "references pairClosure 0 = None" by (simp add: pairClosure_def)
  have b5: "reduce () (strings pairClosure) (args pairClosure) 0
              (fragment (strings pairClosure) 0, references pairClosure)
          = (Inr ''<div><b data-slot-index=0></b><b data-slot-index=1></b></div>'', Map.empty)"
    by (simp add: pairClosure_def fragment_def marker_def decimal.simps)
  have b6: "parseHTML exampleHost ''<div><b data-slot-index=0></b><b data-slot-index=1></b></div>''
          = Inr [HElement ''div'' []
                  [HElement ''b'' [(''data-slot-index'', ''0'')] [],
                   HElement ''b'' [(''data-slot-index'', ''1'')] []]]"
    by code_simp
  have b7: "creates (created pairClosure)
              [HElement ''div'' []
                [HElement ''b'' [(''data-slot-index'', ''0'')] [],
                 HElement ''b'' [(''data-slot-index'', ''1'')] []]]
          = (?pair, 13)"
    by code_simp
  have b8: "insertions (slotContent exampleHost () (args pairClosure) Map.empty)
              (map snd (findSlots ?pair)) 13 = (Inr [[nextButton], [backButton]], 13)"
    by code_simp
  have b9: "separate (?pair @ concat [[nextButton], [backButton]])" by code_simp
  note u = node_value_replaces_found_placeholder
    [where c = pairClosure and i = 0 and v = "JQ [nextButton]" and w = "()" and r = Map.empty
       and h = exampleHost and table = Map.empty and component = ?pair and ?n1.0 = 13
       and news = "[[nextButton], [backButton]]" and ?n2.0 = 13,
     OF b1 b2 a3 b4 b5 b6 b7 b8 b9]
  have r4: "fst (buildComponent exampleHost () pairClosure)
              = Inr (map (fill (placed (findSlots ?pair) [[nextButton], [backButton]])) ?pair)"
    by (rule u [THEN conjunct2, THEN conjunct2, THEN conjunct2, THEN conjunct2, THEN conjunct2,
                THEN conjunct2, THEN conjunct1])
  have e4: "map (fill (placed (findSlots ?pair) [[nextButton], [backButton]])) ?pair
              = [Element 10 ''div'' [] [nextButton, backButton]]"
    by code_simp
  show ?thesis
    using r1 r2 r3 r4 by (simp only: e3 e4 held.simps simp_thms)
qed

text \<open>
  Claim C1 as stated fails for a placeholder that is a top-level node of the parsed
  markup: \<open>find\<close> looks below the top-level nodes only. In \<^verbatim>\<open>template`${nextButton}`\<close>
  the value is a component built before; \<open>createReference\<close> returns the placeholder, the
  markup is the placeholder alone, and the component built is the placeholder element
  itself, with no child: the node of the value is nowhere in it.
\<close>

theorem top_level_placeholder_counterexample:
  "args bareClosure ! 0 = Val (JQ [nextButton]) \<and>
   fst (reduce () (strings bareClosure) (args bareClosure) 0
          (fragment (strings bareClosure) 0, references bareClosure))
     = Inr ''<b data-slot-index=0></b>'' \<and>
   fst (buildComponent exampleHost () bareClosure)
     = Inr [Element 10 ''b'' [(''data-slot-index'', ''0'')] []] \<and>
   ident nextButton \<notin> set (concat (map identities [Element 10 ''b'' [(''data-slot-index'', ''0'')] []]))"
  by code_simp

section \<open>Callbacks as interpolated values\<close>

lemma reduce_update:
  assumes "i < length vals"
    and "\<And>r. createReference w r a (k + i) = createReference w r (vals ! i) (k + i)"
  shows "reduce w strs (vals[i := a]) k acc = reduce w strs vals k acc"
  using assms
proof (induction vals arbitrary: i k acc)
  case Nil
  then show ?case by simp
next
  case (Cons b vals)
  obtain p refs where acc: "acc = (p, refs)" by (cases acc)
  show ?case
  proof (cases i)
    case 0
    then show ?thesis using Cons.prems(2) [of refs] by (simp add: acc)
  next
    case (Suc j)
    have "\<And>r. createReference w r a (Suc k + j) = createReference w r (vals ! j) (Suc k + j)"
      using Cons.prems(2) Suc by simp
    then have "\<And>acc'. reduce w strs (vals[j := a]) (Suc k) acc' = reduce w strs vals (Suc k) acc'"
      using Cons.IH [of j "Suc k"] Cons.prems(1) Suc by simp
    then show ?thesis by (simp add: acc Suc split: prod.splits sum.splits)
  qed
qed

lemma slotContent_update:
  assumes "i < length vals" and "vals ! i = Callback f" and "f w = Inr (Str s)"
  shows "slotContent h w (vals[i := Val (Str s)]) table = slotContent h w vals table"
proof (rule ext, rule ext)
  fix as n
  show "slotContent h w (vals[i := Val (Str s)]) table as n = slotContent h w vals table as n"
  proof (cases "slotIndex as")
    case (Name name)
    then show ?thesis by (simp add: slotContent_def argsAt_def)
  next
    case (Number j)
    show ?thesis
    proof (cases "j = i")
      case True
      then show ?thesis
        using assms Number
        by (simp add: slotContent_def argsAt_def getReferenceValue_def split: option.splits)
    next
      case False
      then show ?thesis
        using Number by (simp add: slotContent_def argsAt_def)
    qed
  qed
qed

lemma buildComponent_update:
  assumes "i < length (args c)" and "args c ! i = Callback f" and "f w = Inr (Str s)"
  shows "buildComponent h w (c\<lparr>args := (args c)[i := Val (Str s)]\<rparr>)
       = (fst (buildComponent h w c),
          (snd (buildComponent h w c))\<lparr>args := (args c)[i := Val (Str s)]\<rparr>)"
proof -
  have cr: "\<And>r. createReference w r (Val (Str s)) (0 + i) = createReference w r (args c ! i) (0 + i)"
    using assms(2,3) by simp
  have red: "\<And>acc. reduce w (strings c) ((args c)[i := Val (Str s)]) 0 acc
                  = reduce w (strings c) (args c) 0 acc"
    using reduce_update [OF assms(1) cr] by simp
  show ?thesis
    by (simp add: buildComponent_def red slotContent_update [OF assms] split: prod.splits sum.splits)
qed

text \<open>
  Claim C5. When the value at index \<open>i\<close> is a callback that returns the string \<open>s\<close>,
  \<open>createReference\<close> calls it and returns \<open>s\<close> itself, with no placeholder and no
  entry in the table, exactly as it does for the plain string \<open>s\<close>; and putting the plain
  string \<open>s\<close> in the place of the callback changes neither what \<open>buildComponent\<close>
  builds or throws, nor the table it leaves, nor the component \<open>template\<close> returns, nor
  what \<open>refresh\<close> leaves.
\<close>

theorem string_callback_like_string:
  assumes "i < length (args c)" and "args c ! i = Callback f" and "f w = Inr (Str s)"
  shows "createReference w r (args c ! i) i = (Inr s, r) \<and>
         createReference w r (Val (Str s)) i = (Inr s, r) \<and>
         fst (buildComponent h w (c\<lparr>args := (args c)[i := Val (Str s)]\<rparr>)) = fst (buildComponent h w c) \<and>
         created (snd (buildComponent h w (c\<lparr>args := (args c)[i := Val (Str s)]\<rparr>)))
           = created (snd (buildComponent h w c)) \<and>
         references (snd (buildComponent h w (c\<lparr>args := (args c)[i := Val (Str s)]\<rparr>)))
           = references (snd (buildComponent h w c)) \<and>
         componentInstance (fst (refresh h w (c\<lparr>args := (args c)[i := Val (Str s)]\<rparr>)))
           = componentInstance (fst (refresh h w c)) \<and>
         snd (refresh h w (c\<lparr>args := (args c)[i := Val (Str s)]\<rparr>)) = snd (refresh h w c) \<and>
         map_sum id componentInstance (template h w n (strings c) ((args c)[i := Val (Str s)]))
           = map_sum id componentInstance (template h w n (strings c) (args c))"
proof -
  have b: "buildComponent h w (c\<lparr>args := (args c)[i := Val (Str s)]\<rparr>)
       = (fst (buildComponent h w c),
          (snd (buildComponent h w c))\<lparr>args := (args c)[i := Val (Str s)]\<rparr>)"
    by (rule buildComponent_update [OF assms])
  have 1: "createReference w r (args c ! i) i = (Inr s, r)"
    using assms(2,3) by simp
  have 2: "createReference w r (Val (Str s)) i = (Inr s, r)" by simp
  have 3: "fst (buildComponent h w (c\<lparr>args := (args c)[i := Val (Str s)]\<rparr>)) = fst (buildComponent h w c)"
    by (simp add: b)
  have 4: "created (snd (buildComponent h w (c\<lparr>args := (args c)[i := Val (Str s)]\<rparr>)))
           = created (snd (buildComponent h w c))"
    by (simp add: b)
  have 5: "references (snd (buildComponent h w (c\<lparr>args := (args c)[i := Val (Str s)]\<rparr>)))
           = references (snd (buildComponent h w c))"
    by (simp add: b)
  have 6: "componentInstance (fst (refresh h w (c\<lparr>args := (args c)[i := Val (Str s)]\<rparr>)))
           = componentInstance (fst (refresh h w c)) \<and>
         snd (refresh h w (c\<lparr>args := (args c)[i := Val (Str s)]\<rparr>)) = snd (refresh h w c)"
    by (simp add: refresh_def b split: prod.splits sum.splits option.splits)
  have 7: "map_sum id componentInstance (template h w n (strings c) ((args c)[i := Val (Str s)]))
           = map_sum id componentInstance (template h w n (strings c) (args c))"
  proof -
    let ?c = "\<lparr>strings = strings c, args = args c, references = Map.empty,
               componentInstance = [], created = n\<rparr>"
    have "buildComponent h w (?c\<lparr>args := (args ?c)[i := Val (Str s)]\<rparr>)
         = (fst (buildComponent h w ?c),
            (snd (buildComponent h w ?c))\<lparr>args := (args ?c)[i := Val (Str s)]\<rparr>)"
      using buildComponent_update [of i ?c f w s h] assms by simp
    then show ?thesis
      by (simp add: template_def split: prod.splits sum.splits)
  qed
  show ?thesis using 1 2 3 4 5 6 7 by blast
qed

lemma greetingClosure_template:
  "template exampleHost ''World'' 0 greetingStrings greetingArgs = Inr greetingClosure"
  by (simp add: template_def buildComponent_def greetingClosure_def greetingStrings_def
      greetingArgs_def exampleHost_def exampleMarkup_def fragment_def findSlots_def contents_def
      selected_def)

theorem string_callback_like_string_witness:
  "createReference ''World'' Map.empty (args greetingClosure ! 0) 0 = (Inr ''World'', Map.empty) \<and>
   componentInstance (fst (refresh exampleHost ''World''
       (greetingClosure\<lparr>args := (args greetingClosure)[0 := Val (Str ''World'')]\<rparr>)))
     = [Element 0 ''button'' [(''id'', ''b'')] [Text 3 ''Hello, World!'']] \<and>
   componentInstance (fst (refresh exampleHost ''World'' greetingClosure))
     = [Element 0 ''button'' [(''id'', ''b'')] [Text 3 ''Hello, World!'']]"
proof -
  have h1: "0 < length (args greetingClosure)"
    by (simp add: greetingClosure_def greetingArgs_def)
  have h2: "args greetingClosure ! 0 = Callback (\<lambda>name. Inr (Str name))"
    by (simp add: greetingClosure_def greetingArgs_def)
  have h3: "(\<lambda>name. Inr (Str name) :: error + jsval) ''World'' = Inr (Str ''World'')" by simp
  have e: "componentInstance (fst (refresh exampleHost ''World'' greetingClosure))
     = [Element 0 ''button'' [(''id'', ''b'')] [Text 3 ''Hello, World!'']]"
    by code_simp
  note t = string_callback_like_string
    [where f = "\<lambda>name. Inr (Str name)" and w = "''World''" and s = "''World''" and r = Map.empty
       and h = exampleHost and n = 0, OF h1 h2 h3]
  have a: "createReference ''World'' Map.empty (args greetingClosure ! 0) 0 = (Inr ''World'', Map.empty)"
    using t by (rule conjunct1)
  have b: "componentInstance (fst (refresh exampleHost ''World''
       (greetingClosure\<lparr>args := (args greetingClosure)[0 := Val (Str ''World'')]\<rparr>)))
     = componentInstance (fst (refresh exampleHost ''World'' greetingClosure))"
    by (rule t [THEN conjunct2, THEN conjunct2, THEN conjunct2, THEN conjunct2, THEN conjunct2,
                THEN conjunct1])
  show ?thesis
    using a b e by (simp only: simp_thms)
qed

lemma placed_at:
  assumes "insertions f (map snd slots) n = (Inr news, n')"
    and "distinct (map fst slots)"
    and "(k, as) \<in> set slots"
  shows "\<exists>m m' new. f as m = (Inr new, m') \<and> placed slots news k = Some new"
proof -
  obtain p where p: "p < length slots" and at: "slots ! p = (k, as)"
    using assms(3) by (auto simp: in_set_conv_nth)
  have len: "length news = length slots"
    using insertions_length [OF assms(1)] by simp
  have "p < length (map snd slots)" using p by simp
  from insertions_nth [OF assms(1) this] obtain m m' where
    "f (map snd slots ! p) m = (Inr (news ! p), m')" by blast
  then have "f as m = (Inr (news ! p), m')" using p at by simp
  then show ?thesis using placed_nth [OF assms(2) len p] at by auto
qed

text \<open>
  Claim C6, as amended. Take a build that runs to its end, in which the parsed component
  and the nodes inserted into it are separate. When the value at index \<open>i\<close> is a
  callback whose result \<open>v\<close> is not a string, \<open>createReference\<close> stores \<open>v\<close> in the
  table under \<open>i\<close> and returns the placeholder carrying \<open>i\<close>; the markup holds that
  placeholder after the markup of the values before \<open>i\<close>; the entry is still there
  when the placeholders are resolved; \<open>args[i]\<close> is the function, and
  \<open>getReferenceValue\<close> returns the entry instead; what the \<open>each\<close> callback inserts
  for a placeholder carrying \<open>i\<close> is what the insertion of \<open>v\<close> gives. The component
  built is the parsed component with every placeholder that \<open>find\<close> has found, and that
  is not inside another one, replaced where it stands by the nodes inserted for it; for
  each placeholder found that carries \<open>i\<close> these are the nodes the insertion of \<open>v\<close>
  gives: the nodes \<open>v\<close> holds when it is a jQuery object or an array.
\<close>

theorem callback_result_replaces_found_placeholder:
  assumes "i < length (args c)"
    and "args c ! i = Callback f"
    and "f w = Inr v"
    and "\<not> isString v"
    and "reduce w (strings c) (args c) 0 (fragment (strings c) 0, references c) = (Inr html, table)"
    and "parseHTML h html = Inr parsed"
    and "creates (created c) parsed = (component, n1)"
    and "insertions (slotContent h w (args c) table) (map snd (findSlots component)) n1
           = (Inr news, n2)"
    and "separate (component @ concat news)"
  shows "createReference w r (args c ! i) i = (Inr (marker i), r(i \<mapsto> v)) \<and>
         (\<exists>before table' rest.
            reduce w (strings c) (take i (args c)) 0 (fragment (strings c) 0, references c)
              = (Inr before, table') \<and>
            html = before @ marker i @ rest) \<and>
         table i = Some v \<and>
         argsAt h (args c) (Number i) = Inr (Callback f) \<and>
         getReferenceValue table (Callback f) (Number i) = Val v \<and>
         (\<forall>as n. slotIndex as = Number i \<longrightarrow>
            slotContent h w (args c) table as n = (Inr (fst (inserted h v n)), snd (inserted h v n))) \<and>
         fst (buildComponent h w c)
           = Inr (map (fill (placed (findSlots component) news)) component) \<and>
         (\<forall>(k, as) \<in> set (findSlots component). slotIndex as = Number i \<longrightarrow>
            (\<exists>n. placed (findSlots component) news k = Some (fst (inserted h v n)))) \<and>
         (\<forall>(k, as) \<in> set (findSlots component). slotIndex as = Number i \<and> nodeLike v \<longrightarrow>
            placed (findSlots component) news k = Some (held v))"
proof -
  have cr: "\<And>r. createReference w r (args c ! i) i = (Inr (marker i), r(i \<mapsto> v))"
    using assms(2,3,4) by (cases v) simp_all
  have tab: "table i = Some v"
    using reduce_table [OF assms(5), of i] assms(1,2,3,4) by (cases v) simp_all
  have html: "\<exists>before table' rest.
            reduce w (strings c) (take i (args c)) 0 (fragment (strings c) 0, references c)
              = (Inr before, table') \<and>
            html = before @ marker i @ rest"
  proof -
    from reduce_spliced [OF assms(1,5)] obtain before table' piece table'' rest where
      a: "reduce w (strings c) (take i (args c)) 0 (fragment (strings c) 0, references c)
           = (Inr before, table')"
      and b: "createReference w table' (args c ! i) i = (Inr piece, table'')"
      and d: "html = before @ piece @ rest"
      by blast
    have "piece = marker i" using b cr [of table'] by simp
    then show ?thesis using a d by blast
  qed
  have at: "argsAt h (args c) (Number i) = Inr (Callback f)"
    using assms(1,2) by (simp add: argsAt_def)
  have get: "getReferenceValue table (Callback f) (Number i) = Val v"
    using tab by (simp add: getReferenceValue_def)
  have slot: "\<And>as n. slotIndex as = Number i \<Longrightarrow>
                slotContent h w (args c) table as n
                  = (Inr (fst (inserted h v n)), snd (inserted h v n))"
    using at get by (simp add: slotContent_def)
  have build: "fst (buildComponent h w c)
           = Inr (map (fill (placed (findSlots component) news)) component)"
    using build_fill [OF assms(5,6,7,8,9)] by simp
  have each: "\<forall>(k, as) \<in> set (findSlots component). slotIndex as = Number i \<longrightarrow>
            (\<exists>n. placed (findSlots component) news k = Some (fst (inserted h v n)))"
  proof (intro ballI, clarify)
    fix k as
    assume m: "(k, as) \<in> set (findSlots component)" and x: "slotIndex as = Number i"
    from placed_at [OF assms(8) separate_slots [OF assms(9)] m] obtain n n' new where
      a: "slotContent h w (args c) table as n = (Inr new, n')"
      and b: "placed (findSlots component) news k = Some new"
      by blast
    have "new = fst (inserted h v n)" using a slot [OF x, of n] by simp
    then show "\<exists>n. placed (findSlots component) news k = Some (fst (inserted h v n))"
      using b by blast
  qed
  have nodes: "\<forall>(k, as) \<in> set (findSlots component). slotIndex as = Number i \<and> nodeLike v \<longrightarrow>
            placed (findSlots component) news k = Some (held v)"
  proof (intro ballI, clarify)
    fix k as
    assume m: "(k, as) \<in> set (findSlots component)" and x: "slotIndex as = Number i"
      and nl: "nodeLike v"
    have "\<And>n. fst (inserted h v n) = held v" using nl by (cases v) simp_all
    then have "\<And>m. fst (slotContent h w (args c) table as m) = Inr (held v)"
      using slot [OF x] by simp
    then show "placed (findSlots component) news k = Some (held v)"
      by (rule placed_content [OF assms(8) separate_slots [OF assms(9)] m])
  qed
  show ?thesis using cr html tab at get slot build each nodes by blast
qed

theorem callback_result_replaces_found_placeholder_witness:
  "createReference [''A'', ''B''] Map.empty (args listClosure ! 0) 0
     = (Inr (marker 0), [0 \<mapsto> listAB]) \<and>
   getReferenceValue [0 \<mapsto> listAB] (Callback (\<lambda>items. Inr (listItems items))) (Number 0)
     = Val listAB \<and>
   fst (buildComponent exampleHost [''A'', ''B''] listClosure)
     = Inr [Element 100 ''ul'' []
             [Element 101 ''li'' [] [Text 102 ''first''],
              Element 0 ''li'' [] [Text 1 ''A''],
              Element 2 ''li'' [] [Text 3 ''B''],
              Element 104 ''li'' [] [Text 105 ''last'']]]"
proof -
  let ?f = "\<lambda>items. Inr (listItems items) :: error + jsval"
  let ?component = "[Element 100 ''ul'' []
                      [Element 101 ''li'' [] [Text 102 ''first''],
                       Element 103 ''b'' [(''data-slot-index'', ''0'')] [],
                       Element 104 ''li'' [] [Text 105 ''last'']]]"
  let ?news = "[[Element 0 ''li'' [] [Text 1 ''A''], Element 2 ''li'' [] [Text 3 ''B'']]]"
  have a1: "0 < length (args listClosure)" by (simp add: listClosure_def listArgs_def)
  have a2: "args listClosure ! 0 = Callback ?f" by (simp add: listClosure_def listArgs_def)
  have a3: "?f [''A'', ''B''] = Inr listAB"
    by (simp add: listItems_def listAB_def listItem_def)
  have a4: "\<not> isString listAB" by (simp add: listAB_def)
  have a5: "reduce [''A'', ''B''] (strings listClosure) (args listClosure) 0
              (fragment (strings listClosure) 0, references listClosure)
          = (Inr ''<ul><li>first</li><b data-slot-index=0></b><li>last</li></ul>'', [0 \<mapsto> listAB])"
    by (simp add: listClosure_def listArgs_def listStrings_def listItems_def listAB_def
        listItem_def fragment_def marker_def decimal.simps)
  have a6: "parseHTML exampleHost ''<ul><li>first</li><b data-slot-index=0></b><li>last</li></ul>''
          = Inr [HElement ''ul'' []
                  [HElement ''li'' [] [HText ''first''],
                   HElement ''b'' [(''data-slot-index'', ''0'')] [],
                   HElement ''li'' [] [HText ''last'']]]"
    by code_simp
  have a7: "creates (created listClosure)
              [HElement ''ul'' []
                [HElement ''li'' [] [HText ''first''],
                 HElement ''b'' [(''data-slot-index'', ''0'')] [],
                 HElement ''li'' [] [HText ''last'']]]
          = (?component, 106)"
    by code_simp
  have a8: "insertions (slotContent exampleHost [''A'', ''B''] (args listClosure) [0 \<mapsto> listAB])
              (map snd (findSlots ?component)) 106 = (Inr ?news, 106)"
    by code_simp
  have a9: "separate (?component @ concat ?news)" by code_simp
  note t = callback_result_replaces_found_placeholder
    [where c = listClosure and i = 0 and f = ?f and v = listAB and w = "[''A'', ''B'']"
       and r = Map.empty and h = exampleHost and table = "[0 \<mapsto> listAB]"
       and component = ?component and ?n1.0 = 106 and news = ?news and ?n2.0 = 106,
     OF a1 a2 a3 a4 a5 a6 a7 a8 a9]
  have r1: "createReference [''A'', ''B''] Map.empty (args listClosure ! 0) 0
              = (Inr (marker 0), [0 \<mapsto> listAB])"
    by (rule t [THEN conjunct1])
  have r2: "getReferenceValue [0 \<mapsto> listAB] (Callback ?f) (Number 0) = Val listAB"
    by (rule t [THEN conjunct2, THEN conjunct2, THEN conjunct2, THEN conjunct2, THEN conjunct1])
  have r3: "fst (buildComponent exampleHost [''A'', ''B''] listClosure)
              = Inr (map (fill (placed (findSlots ?component) ?news)) ?component)"
    by (rule t [THEN conjunct2, THEN conjunct2, THEN conjunct2, THEN conjunct2, THEN conjunct2,
                THEN conjunct2, THEN conjunct1])
  have e3: "map (fill (placed (findSlots ?component) ?news)) ?component
              = [Element 100 ''ul'' []
                  [Element 101 ''li'' [] [Text 102 ''first''],
                   Element 0 ''li'' [] [Text 1 ''A''],
                   Element 2 ''li'' [] [Text 3 ''B''],
                   Element 104 ''li'' [] [Text 105 ''last'']]]"
    by code_simp
  show ?thesis
    using r1 r2 r3 by (simp only: e3 simp_thms)
qed

text \<open>
  Claim C6 as stated fails for a placeholder that is a top-level node of the parsed
  markup. In \<^verbatim>\<open>template`${() => items.map(listItem)}`\<close> the callback returns an array;
  \<open>createReference\<close> stores it in the table and returns the placeholder; the markup is
  the placeholder alone, \<open>find\<close> does not find it, and the component built is the
  placeholder element, not replaced by the entry of the table.
\<close>

theorem top_level_callback_counterexample:
  "fst (createReference [''A'', ''B''] Map.empty (args wholeClosure ! 0) 0) = Inr (marker 0) \<and>
   snd (createReference [''A'', ''B''] Map.empty (args wholeClosure ! 0) 0) 0 = Some listAB \<and>
   fst (reduce [''A'', ''B''] (strings wholeClosure) (args wholeClosure) 0
          (fragment (strings wholeClosure) 0, references wholeClosure))
     = Inr ''<b data-slot-index=0></b>'' \<and>
   findSlots [Element 100 ''b'' [(''data-slot-index'', ''0'')] []] = [] \<and>
   fst (buildComponent exampleHost [''A'', ''B''] wholeClosure)
     = Inr [Element 100 ''b'' [(''data-slot-index'', ''0'')] []]"
  by code_simp





section \<open>Builds from plain values\<close>

lemma create_Element:
  "create n (HElement t as hs)
     = (Element n t as (fst (creates (Suc n) hs)), snd (creates (Suc n) hs))"
  by (simp split: prod.splits)

lemma creates_Cons:
  "creates n (h # hs)
     = (fst (create n h) # fst (creates (snd (create n h)) hs),
        snd (creates (snd (create n h)) hs))"
  by (simp split: prod.splits)

lemma erase_create:
  "erase (fst (create n h)) = h"
  "map erase (fst (creates n hs)) = hs"
proof (induction n h and n hs rule: create_creates.induct)
  case (1 n s)
  show ?case by simp
next
  case (2 n t as hs)
  then show ?case by (simp only: create_Element fst_conv erase.simps)
next
  case (3 n)
  show ?case by simp
next
  case (4 n h hs)
  have "map erase (fst (creates (snd (create n h)) hs)) = hs"
    using "4.IH"(2) [of "create n h" "fst (create n h)" "snd (create n h)"] by simp
  then show ?case
    using "4.IH"(1) by (simp only: creates_Cons fst_conv list.map)
qed

lemma matched_unmarked: "unmarked (erase x) \<Longrightarrow> matched x = []"
proof (induction x)
  case (Text i s)
  show ?case by simp
next
  case (Element i t as cs)
  have "\<And>c. c \<in> set cs \<Longrightarrow> matched c = []"
    using Element by (simp add: list_all_iff)
  then have "concat (map matched cs) = []" by simp
  then show ?case using Element.prems by simp
qed

lemma findSlots_unmarked: "list_all unmarkedBelow (map erase roots) \<Longrightarrow> findSlots roots = []"
proof -
  assume a: "list_all unmarkedBelow (map erase roots)"
  have "\<And>x. x \<in> set (contents roots) \<Longrightarrow> matched x = []"
  proof -
    fix x
    assume "x \<in> set (contents roots)"
    then obtain r where r: "r \<in> set roots" and x: "x \<in> set (childNodes r)"
      by (auto simp: contents_def)
    have "unmarkedBelow (erase r)" using a r by (simp add: list_all_iff)
    then have "unmarked (erase x)" using x by (cases r) (simp_all add: list_all_iff)
    then show "matched x = []" by (rule matched_unmarked)
  qed
  then show ?thesis by (simp add: findSlots_def)
qed

lemma reduce_plain:
  "map plainText vals = map Some texts \<Longrightarrow>
     reduce w strs vals k (p, refs) = (Inr (p @ interleave strs k texts), refs)"
proof (induction vals arbitrary: texts k p)
  case Nil
  then show ?case by simp
next
  case (Cons a vals)
  from Cons.prems obtain t ts where texts: "texts = t # ts"
    and a: "plainText a = Some t" and rest: "map plainText vals = map Some ts"
    by (cases texts) auto
  have cr: "createReference w refs a k = (Inr t, refs)"
    using a by (cases a rule: plainText.cases) simp_all
  show ?case
    using Cons.IH [OF rest, of "Suc k" "p @ t @ fragment strs (Suc k)"]
    by (simp add: texts cr)
qed

text \<open>
  Claim C7, as amended. When every interpolated value is a string or a primitive, the
  markup \<open>buildComponent\<close> assembles is the direct concatenation of the fragments and
  the values. When parsing it throws, \<open>template\<close> throws the same. When it parses and
  the parsed concatenation holds no element \<^verbatim>\<open>b[data-slot-index]\<close> below its top-level
  nodes, the component \<open>template\<close> returns is that markup parsed once: the nodes created
  from it, unchanged. This holds for any number of top-level nodes, so for a template
  with exactly one root element.
\<close>

theorem plain_values_build_is_parse:
  assumes "map plainText vals = map Some texts"
  shows "reduce w strs vals 0 (fragment strs 0, Map.empty)
           = (Inr (concatenation strs texts), Map.empty) \<and>
         (\<forall>thrown. parseHTML h (concatenation strs texts) = Inl thrown \<longrightarrow>
            template h w n strs vals = Inl thrown) \<and>
         (\<forall>parsed. parseHTML h (concatenation strs texts) = Inr parsed \<and>
                   list_all unmarkedBelow parsed \<longrightarrow>
            (\<exists>c. template h w n strs vals = Inr c \<and>
                 componentInstance c = fst (creates n parsed) \<and>
                 map erase (componentInstance c) = parsed))"
proof -
  have red: "reduce w strs vals 0 (fragment strs 0, Map.empty)
               = (Inr (concatenation strs texts), Map.empty)"
    using reduce_plain [OF assms] by (simp add: concatenation_def)
  have thrown: "\<forall>thrown. parseHTML h (concatenation strs texts) = Inl thrown \<longrightarrow>
            template h w n strs vals = Inl thrown"
    by (simp add: template_def buildComponent_def red)
  have parsed: "\<forall>parsed. parseHTML h (concatenation strs texts) = Inr parsed \<and>
                   list_all unmarkedBelow parsed \<longrightarrow>
            (\<exists>c. template h w n strs vals = Inr c \<and>
                 componentInstance c = fst (creates n parsed) \<and>
                 map erase (componentInstance c) = parsed)"
  proof (intro allI impI)
    fix parsed
    assume a: "parseHTML h (concatenation strs texts) = Inr parsed \<and> list_all unmarkedBelow parsed"
    have e: "map erase (fst (creates n parsed)) = parsed" by (rule erase_create(2))
    then have "findSlots (fst (creates n parsed)) = []"
      using a findSlots_unmarked [of "fst (creates n parsed)"] by simp
    then have "template h w n strs vals
                 = Inr \<lparr>strings = strs, args = vals, references = Map.empty,
                        componentInstance = fst (creates n parsed),
                        created = snd (creates n parsed)\<rparr>"
      using a by (simp add: template_def buildComponent_def red)
    then show "\<exists>c. template h w n strs vals = Inr c \<and>
                 componentInstance c = fst (creates n parsed) \<and>
                 map erase (componentInstance c) = parsed"
      using e by simp
  qed
  show ?thesis using red thrown parsed by blast
qed

theorem plain_values_build_is_parse_witness:
  "map plainText worldArgs = map Some [''World''] \<and>
   concatenation greetingStrings [''World''] = ''<button id=b>Hello, World!</button>'' \<and>
   (\<exists>c. template exampleHost () 0 greetingStrings worldArgs = Inr c \<and>
        componentInstance c = [Element 0 ''button'' [(''id'', ''b'')] [Text 1 ''Hello, World!'']])"
proof -
  let ?parsed = "[HElement ''button'' [(''id'', ''b'')] [HText ''Hello, World!'']]"
  have h1: "map plainText worldArgs = map Some [''World'']" by (simp add: worldArgs_def)
  have h2: "parseHTML exampleHost (concatenation greetingStrings [''World'']) = Inr ?parsed \<and>
            list_all unmarkedBelow ?parsed"
    by code_simp
  have h3: "concatenation greetingStrings [''World''] = ''<button id=b>Hello, World!</button>''"
    by code_simp
  have h4: "fst (creates 0 ?parsed) = [Element 0 ''button'' [(''id'', ''b'')] [Text 1 ''Hello, World!'']]"
    by code_simp
  note t = plain_values_build_is_parse
    [where w = "()" and n = 0 and h = exampleHost and strs = greetingStrings, OF h1]
  from t [THEN conjunct2, THEN conjunct2, rule_format, OF h2]
  obtain c where "template exampleHost () 0 greetingStrings worldArgs = Inr c"
    and "componentInstance c = fst (creates 0 ?parsed)"
    by blast
  then have "\<exists>c. template exampleHost () 0 greetingStrings worldArgs = Inr c \<and>
        componentInstance c = [Element 0 ''button'' [(''id'', ''b'')] [Text 1 ''Hello, World!'']]"
    using h4 by simp
  then show ?thesis using h1 h3 by (simp only: simp_thms)
qed

text \<open>
  Claim C7 as stated fails when the parsed concatenation holds an element
  \<^verbatim>\<open>b[data-slot-index]\<close>: the build takes it for a placeholder. In
  \<^verbatim>\<open>template`<div><b data-slot-index=0></b>${"hi"}</div>`\<close> all values are strings and the
  markup has one root element; parsing the concatenation gives a \<open>div\<close> holding the
  \<open>b\<close> element and the text \<open>hi\<close>, while the build replaces the \<open>b\<close> element by
  \<open>args[0]\<close> and gives a \<open>div\<close> holding the text \<open>hi\<close> twice.
\<close>

theorem marked_literal_counterexample:
  "map plainText markedArgs = map Some [''hi''] \<and>
   parseHTML exampleHost (concatenation markedStrings [''hi''])
     = Inr [HElement ''div'' [] [HElement ''b'' [(''data-slot-index'', ''0'')] [], HText ''hi'']] \<and>
   map_sum id (map erase \<circ> componentInstance) (template exampleHost () 0 markedStrings markedArgs)
     = Inr [HElement ''div'' [] [HText ''hi'', HText ''hi'']] \<and>
   map_sum id (map erase \<circ> componentInstance) (template exampleHost () 0 markedStrings markedArgs)
     \<noteq> parseHTML exampleHost (concatenation markedStrings [''hi''])"
  by code_simp

section \<open>The table after a build\<close>










section \<open>What \<open>refresh\<close> keeps\<close>

lemma emptyNode_appendChildren: "emptyNode (appendChildren t new) = emptyNode t"
  by (cases t) simp_all

lemma emptyNode_appendChild: "emptyNode (fst (appendChild t new)) = emptyNode t"
  by (cases t) simp_all

lemma emptyNode_idem: "emptyNode (emptyNode t) = emptyNode t"
  by (cases t) simp_all

lemma appendEach_shell: "map emptyNode (fst (fst (appendEach ts content n))) = map emptyNode ts"
proof (induction ts arbitrary: n)
  case Nil
  then show ?case by simp
next
  case (Cons t ts)
  show ?case
  proof (cases ts)
    case Nil
    then show ?thesis by (simp add: emptyNode_appendChild)
  next
    case (Cons u us)
    obtain copy n1 where cr: "creates n (map erase content) = (copy, n1)"
      by (cases "creates n (map erase content)")
    obtain ts' n2 thrown where ap: "appendEach (u # us) content n1 = ((ts', n2), thrown)"
      by (cases "appendEach (u # us) content n1") auto
    have "map emptyNode ts' = map emptyNode (u # us)"
      using Cons.IH [of n1] by (simp add: Cons ap)
    then show ?thesis
      by (simp add: Cons cr ap emptyNode_appendChildren)
  qed
qed

lemma append_shell: "map emptyNode (fst (fst (append ts content n))) = map emptyNode ts"
  by (simp add: append_def appendEach_shell Let_def)

lemma bare_emptyNode: "bare (emptyNode t) = bare t"
  by (cases t) simp_all

lemma shell_bare: "map emptyNode xs = map emptyNode ys \<Longrightarrow> map bare xs = map bare ys"
proof -
  assume "map emptyNode xs = map emptyNode ys"
  then have "map bare (map emptyNode xs) = map bare (map emptyNode ys)" by simp
  then show ?thesis by (simp add: bare_emptyNode o_def)
qed

lemma bare_ident: "map bare xs = map bare ys \<Longrightarrow> map ident xs = map ident ys"
proof -
  assume "map bare xs = map bare ys"
  then have "map ident (map bare xs) = map ident (map bare ys)" by simp
  moreover have "ident \<circ> bare = ident"
  proof
    fix x show "(ident \<circ> bare) x = ident x" by (cases x) simp_all
  qed
  ultimately show "map ident xs = map ident ys" by simp
qed

lemma copyAttributes_destination:
  "copyAttributes src (get0 live) = (dest, thrown) \<Longrightarrow>
     (case dest of None \<Rightarrow> live = [] | Some d \<Rightarrow> live \<noteq> [] \<and> bare d = bare (hd live) \<and> childNodes d = childNodes (hd live))"
  by (cases live; cases "hd live") (auto simp: get0_def split: option.splits)

text \<open>
  Claim C2. \<open>refresh\<close> leaves \<open>componentInstance\<close> the same object: the collection holds
  the same nodes (same identities, in the same order), and \<open>strings\<close> and \<open>args\<close> are
  as before. Apart from children and attributes every top-level node is unchanged, and
  apart from children every top-level node but the first is unchanged: the call changes
  children, and the attributes of the first node, only. This holds however the call
  ends.
\<close>

theorem refresh_keeps_identity:
  "strings (fst (refresh h w c)) = strings c \<and>
   args (fst (refresh h w c)) = args c \<and>
   map ident (componentInstance (fst (refresh h w c))) = map ident (componentInstance c) \<and>
   map bare (componentInstance (fst (refresh h w c))) = map bare (componentInstance c) \<and>
   map emptyNode (tl (componentInstance (fst (refresh h w c)))) = map emptyNode (tl (componentInstance c))"
proof -
  obtain r c1 where b: "buildComponent h w c = (r, c1)"
    by (cases "buildComponent h w c")
  have c1: "strings c1 = strings c" "args c1 = args c" "componentInstance c1 = componentInstance c"
    using buildComponent_frame [of h w c] by (simp_all add: b)
  show ?thesis
  proof (cases r)
    case (Inl thrown)
    then have "fst (refresh h w c) = c1" by (simp add: refresh_def b)
    then show ?thesis using c1 by simp
  next
    case (Inr updated)
    obtain live n thrown where
      a: "append (map emptyNode (componentInstance c)) (contents updated) (created c1)
            = ((live, n), thrown)"
      by (cases "append (map emptyNode (componentInstance c)) (contents updated) (created c1)") auto
    have live: "map emptyNode live = map emptyNode (componentInstance c)"
      using append_shell [of "map emptyNode (componentInstance c)" "contents updated" "created c1"]
      by (simp add: a emptyNode_idem o_def)
    show ?thesis
    proof (cases thrown)
      case (Some e)
      then have r: "fst (refresh h w c) = c1\<lparr>componentInstance := live, created := n\<rparr>"
        by (simp add: refresh_def b Inr c1 a)
      have b2: "map bare live = map bare (componentInstance c)"
        using shell_bare [OF live] .
      have t2: "map emptyNode (tl live) = map emptyNode (tl (componentInstance c))"
        using live by (simp add: map_tl)
      show ?thesis
        using b2 t2 bare_ident [OF b2] by (simp add: r c1)
    next
      case None
      obtain dest thrown' where cp: "copyAttributes (get0 updated) (get0 live) = (dest, thrown')"
        by (cases "copyAttributes (get0 updated) (get0 live)")
      let ?ci = "case dest of None \<Rightarrow> live | Some d \<Rightarrow> d # tl live"
      have r: "fst (refresh h w c) = c1\<lparr>componentInstance := ?ci, created := n\<rparr>"
        by (simp add: refresh_def b Inr c1 a None cp)
      have tl: "tl ?ci = tl live" by (cases dest) simp_all
      have bare: "map bare ?ci = map bare live"
        using copyAttributes_destination [OF cp]
        by (cases dest; cases live) simp_all
      have b2: "map bare ?ci = map bare (componentInstance c)"
        using bare shell_bare [OF live] by simp
      have t2: "map emptyNode (tl ?ci) = map emptyNode (tl (componentInstance c))"
        using live tl by (simp add: map_tl)
      show ?thesis
        using b2 t2 bare_ident [OF b2] by (simp add: r c1)
    qed
  qed
qed

theorem refresh_keeps_identity_witness:
  "map ident (componentInstance (fst (refresh exampleHost [''A'', ''B'', ''C''] listInstance))) = [100] \<and>
   map ident (componentInstance listInstance) = [100]"
proof -
  have "map ident (componentInstance listInstance) = [100]"
    by code_simp
  then show ?thesis
    using refresh_keeps_identity [of exampleHost "[''A'', ''B'', ''C'']" listInstance]
    by simp
qed

section \<open>A callback that returns an array of components\<close>

lemma ran_placed: "new \<in> ran (placed slots news) \<Longrightarrow> new \<in> set news"
proof -
  assume "new \<in> ran (placed slots news)"
  then obtain k where "map_of (zip (map fst slots) news) k = Some new"
    by (auto simp: ran_def placed_def)
  then have "(k, new) \<in> set (zip (map fst slots) news)" by (rule map_of_SomeD)
  then show ?thesis by (rule set_zip_rightD)
qed

lemma fill_identities:
  "set (identities (fill g x))
     \<subseteq> set (identities x) \<union> (\<Union>new \<in> ran g. set (concat (map identities new)))"
proof (induction x)
  case (Text i s)
  show ?case by simp
next
  case (Element i t as cs)
  let ?R = "\<Union>new \<in> ran g. set (concat (map identities new))"
  have "\<And>c. c \<in> set cs \<Longrightarrow>
          set (concat (map identities (case g (ident c) of Some new \<Rightarrow> new | None \<Rightarrow> [fill g c])))
            \<subseteq> set (identities c) \<union> ?R"
  proof -
    fix c
    assume c: "c \<in> set cs"
    show "set (concat (map identities (case g (ident c) of Some new \<Rightarrow> new | None \<Rightarrow> [fill g c])))
            \<subseteq> set (identities c) \<union> ?R"
    proof (cases "g (ident c)")
      case None
      then show ?thesis using Element.IH [OF c] by simp
    next
      case (Some new)
      then have "new \<in> ran g" by (auto simp: ran_def)
      then have "set (concat (map identities new)) \<subseteq> ?R" by blast
      then show ?thesis using Some by auto
    qed
  qed
  then have "set (concat (map identities (concat (map (\<lambda>c. case g (ident c) of Some new \<Rightarrow> new | None \<Rightarrow> [fill g c]) cs))))
               \<subseteq> set (concat (map identities cs)) \<union> ?R"
    by (simp only: concat_map_concat_map) fastforce
  then show ?case by (simp only: fill.simps identities.simps) auto
qed

lemma contents_identities:
  "set (concat (map identities (contents roots))) \<subseteq> set (concat (map identities roots))"
proof -
  have "\<And>r. set (concat (map identities (childNodes r))) \<subseteq> set (identities r)"
    by (rule below_in_identities)
  then show ?thesis by (fastforce simp: contents_def)
qed

lemma filled_identities:
  "set (concat (map identities (contents (map (fill (placed slots news)) component))))
     \<subseteq> set (concat (map identities component)) \<union> set (concat (map identities (concat news)))"
proof
  fix j
  assume "j \<in> set (concat (map identities (contents (map (fill (placed slots news)) component))))"
  then have "j \<in> set (concat (map identities (map (fill (placed slots news)) component)))"
    using contents_identities by blast
  then obtain x where x: "x \<in> set component" and j: "j \<in> set (identities (fill (placed slots news) x))"
    by auto
  from fill_identities [of "placed slots news" x] j
  have "j \<in> set (identities x) \<or> (\<exists>new \<in> ran (placed slots news). j \<in> set (concat (map identities new)))"
    by blast
  then show "j \<in> set (concat (map identities component)) \<union> set (concat (map identities (concat news)))"
  proof
    assume "j \<in> set (identities x)"
    then show ?thesis using x by auto
  next
    assume "\<exists>new \<in> ran (placed slots news). j \<in> set (concat (map identities new))"
    then obtain new where "new \<in> ran (placed slots news)" and n: "j \<in> set (concat (map identities new))"
      by blast
    then have "new \<in> set news" using ran_placed by blast
    then show ?thesis using n by auto
  qed
qed

lemma append_one:
  assumes "k \<notin> set (concat (map identities content))"
  shows "append [Element k t as []] content n = (([Element k t as content], n), None)"
proof -
  have "\<And>x. x \<in> set content \<Longrightarrow> ident x \<noteq> k"
    using assms ident_in_identities by fastforce
  then have f: "filter (\<lambda>x. ident x \<noteq> k) content = content"
    by (simp add: filter_id_conv)
  show ?thesis
  proof (cases "content = []")
    case True
    then show ?thesis by (simp add: append_def)
  next
    case False
    then show ?thesis using assms by (simp add: append_def f Let_def del: set_concat)
  qed
qed

lemma copyAttributes_element:
  "\<exists>as' thrown. copyAttributes src (Some (Element k t as kids))
                   = (Some (Element k t as' kids), thrown)"
  by (cases "Option.bind src attributes") simp_all

lemma refresh_one_root:
  assumes "buildComponent h w c = (Inr resolved, c1)"
    and "componentInstance c = [Element k t as cs]"
    and "k \<notin> set (concat (map identities (contents resolved)))"
  shows "\<exists>as'. componentInstance (fst (refresh h w c)) = [Element k t as' (contents resolved)]"
proof -
  have ci: "componentInstance c1 = [Element k t as cs]"
    using buildComponent_frame [of h w c] assms(1,2) by simp
  have ap: "append [Element k t as []] (contents resolved) (created c1)
          = (([Element k t as (contents resolved)], created c1), None)"
    by (rule append_one [OF assms(3)])
  obtain as' thrown where cp:
    "copyAttributes (get0 resolved) (Some (Element k t as (contents resolved)))
       = (Some (Element k t as' (contents resolved)), thrown)"
    using copyAttributes_element by blast
  have g: "get0 [Element k t as (contents resolved)] = Some (Element k t as (contents resolved))"
    by (simp add: get0_def)
  have "componentInstance (fst (refresh h w c)) = [Element k t as' (contents resolved)]"
    by (simp add: refresh_def assms(1) ci ap g cp del: copyAttributes.simps)
  then show ?thesis by blast
qed

lemma separate_tail: "separate (x # ys) \<Longrightarrow> separate ys"
  by (simp add: separate_def)

text \<open>
  Claim C4, as amended. Take a component with one root element and a \<open>refresh\<close> whose
  build runs to its end, in which the root of the component, the newly parsed component
  and the nodes inserted into it are separate. When the value at index \<open>i\<close> is a
  callback that returns an array, the \<open>refresh\<close> calls it in the state of that moment:
  \<open>createReference\<close> stores the array it returns now and splices the placeholder between
  the literal fragments, and each placeholder found that carries \<open>i\<close> is given the
  nodes of that array. The new build is the newly parsed component, made from the literal
  fragments, with every placeholder that \<open>find\<close> has found, and that is not inside
  another one, replaced where it stands by the nodes inserted for it and everything else
  as parsed. After the call the same root has the children of that build as its
  children, in place of the ones it had.
\<close>

theorem refresh_replaces_callback_children:
  assumes "i < length (args c)"
    and "args c ! i = Callback f"
    and "f w = Inr (Arr xs)"
    and "reduce w (strings c) (args c) 0 (fragment (strings c) 0, references c) = (Inr html, table)"
    and "parseHTML h html = Inr parsed"
    and "creates (created c) parsed = (component, n1)"
    and "insertions (slotContent h w (args c) table) (map snd (findSlots component)) n1
           = (Inr news, n2)"
    and "componentInstance c = [Element k t0 as0 cs0]"
    and "separate (Element k t0 as0 [] # component @ concat news)"
  shows "createReference w r (args c ! i) i = (Inr (marker i), r(i \<mapsto> Arr xs)) \<and>
         (\<exists>before table' rest.
            reduce w (strings c) (take i (args c)) 0 (fragment (strings c) 0, references c)
              = (Inr before, table') \<and>
            html = before @ marker i @ rest) \<and>
         table i = Some (Arr xs) \<and>
         (\<forall>(j, as) \<in> set (findSlots component). slotIndex as = Number i \<longrightarrow>
            placed (findSlots component) news j = Some (concat xs)) \<and>
         fst (buildComponent h w c)
           = Inr (map (fill (placed (findSlots component) news)) component) \<and>
         (\<exists>as'. componentInstance (fst (refresh h w c))
                  = [Element k t0 as'
                       (contents (map (fill (placed (findSlots component) news)) component))])"
proof -
  let ?resolved = "map (fill (placed (findSlots component) news)) component"
  have sep: "separate (component @ concat news)"
    by (rule separate_tail [OF assms(9)])
  have cr: "\<And>r. createReference w r (args c ! i) i = (Inr (marker i), r(i \<mapsto> Arr xs))"
    using assms(2,3) by simp
  have tab: "table i = Some (Arr xs)"
    using reduce_table [OF assms(4), of i] assms(1,2,3) by simp
  have html: "\<exists>before table' rest.
            reduce w (strings c) (take i (args c)) 0 (fragment (strings c) 0, references c)
              = (Inr before, table') \<and>
            html = before @ marker i @ rest"
  proof -
    from reduce_spliced [OF assms(1,4)] obtain before table' piece table'' rest where
      a: "reduce w (strings c) (take i (args c)) 0 (fragment (strings c) 0, references c)
           = (Inr before, table')"
      and b: "createReference w table' (args c ! i) i = (Inr piece, table'')"
      and d: "html = before @ piece @ rest"
      by blast
    have "piece = marker i" using b cr [of table'] by simp
    then show ?thesis using a d by blast
  qed
  have slot: "\<And>as n. slotIndex as = Number i \<Longrightarrow>
                slotContent h w (args c) table as n = (Inr (concat xs), n)"
    using assms(1,2) tab by (simp add: slotContent_def argsAt_def getReferenceValue_def)
  have each: "\<forall>(j, as) \<in> set (findSlots component). slotIndex as = Number i \<longrightarrow>
            placed (findSlots component) news j = Some (concat xs)"
  proof (intro ballI, clarify)
    fix j as
    assume m: "(j, as) \<in> set (findSlots component)" and x: "slotIndex as = Number i"
    have "\<And>m. fst (slotContent h w (args c) table as m) = Inr (concat xs)"
      using slot [OF x] by simp
    then show "placed (findSlots component) news j = Some (concat xs)"
      by (rule placed_content [OF assms(7) separate_slots [OF sep] m])
  qed
  have b: "buildComponent h w c = (Inr ?resolved, c\<lparr>references := Map.empty, created := n2\<rparr>)"
    by (rule build_fill [OF assms(4,5,6,7) sep])
  have "k \<notin> set (concat (map identities component)) \<union> set (concat (map identities (concat news)))"
    using assms(9) by (simp add: separate_def)
  then have k: "k \<notin> set (concat (map identities (contents ?resolved)))"
    using filled_identities [of "findSlots component" news component] by blast
  have inst: "\<exists>as'. componentInstance (fst (refresh h w c)) = [Element k t0 as' (contents ?resolved)]"
    by (rule refresh_one_root [OF b assms(8) k])
  have build: "fst (buildComponent h w c) = Inr ?resolved" using b by simp
  show ?thesis using cr html tab each build inst by blast
qed

theorem refresh_replaces_callback_children_witness:
  "componentInstance pageInstance
     = [Element 100 ''main'' []
         [Element 101 ''h1'' [] [Text 102 ''Items''],
          Element 103 ''ul'' []
            [Element 0 ''li'' [] [Text 1 ''A''], Element 2 ''li'' [] [Text 3 ''B'']]]] \<and>
   componentInstance (fst (refresh exampleHost (''More items'', [''A'', ''B'', ''C'']) pageInstance))
     = [Element 100 ''main'' []
         [Element 106 ''h1'' [] [Text 107 ''More items''],
          Element 108 ''ul'' []
            [Element 0 ''li'' [] [Text 1 ''A''], Element 2 ''li'' [] [Text 3 ''B''],
             Element 4 ''li'' [] [Text 5 ''C'']]]]"
proof -
  let ?f = "\<lambda>(title, items). Inr (listItems items) :: error + jsval"
  let ?w = "(''More items'', [''A'', ''B'', ''C''])"
  let ?xs = "[[Element 0 ''li'' [] [Text 1 ''A'']], [Element 2 ''li'' [] [Text 3 ''B'']],
              [Element 4 ''li'' [] [Text 5 ''C'']]]"
  let ?parsed = "[HElement ''main'' []
                   [HElement ''h1'' [] [HText ''More items''],
                    HElement ''ul'' [] [HElement ''b'' [(''data-slot-index'', ''1'')] []]]]"
  let ?component = "[Element 105 ''main'' []
                      [Element 106 ''h1'' [] [Text 107 ''More items''],
                       Element 108 ''ul'' [] [Element 109 ''b'' [(''data-slot-index'', ''1'')] []]]]"
  let ?news = "[[Element 0 ''li'' [] [Text 1 ''A''], Element 2 ''li'' [] [Text 3 ''B''],
                 Element 4 ''li'' [] [Text 5 ''C'']]]"
  let ?cs0 = "[Element 101 ''h1'' [] [Text 102 ''Items''],
               Element 103 ''ul'' []
                 [Element 0 ''li'' [] [Text 1 ''A''], Element 2 ''li'' [] [Text 3 ''B'']]]"
  have a1: "1 < length (args pageInstance)" by (simp add: pageInstance_def pageArgs_def)
  have a2: "args pageInstance ! 1 = Callback ?f" by (simp add: pageInstance_def pageArgs_def)
  have a3: "?f ?w = Inr (Arr ?xs)" by (simp add: listItems_def listItem_def)
  have a4: "reduce ?w (strings pageInstance) (args pageInstance) 0
              (fragment (strings pageInstance) 0, references pageInstance)
          = (Inr ''<main><h1>More items</h1><ul><b data-slot-index=1></b></ul></main>'',
             [1 \<mapsto> Arr ?xs])"
    by (simp add: pageInstance_def pageArgs_def pageStrings_def listItems_def listItem_def
        fragment_def marker_def decimal.simps)
  have a5: "parseHTML exampleHost ''<main><h1>More items</h1><ul><b data-slot-index=1></b></ul></main>''
          = Inr ?parsed"
    by code_simp
  have a6: "creates (created pageInstance) ?parsed = (?component, 110)" by code_simp
  have a7: "insertions (slotContent exampleHost ?w (args pageInstance) [1 \<mapsto> Arr ?xs])
              (map snd (findSlots ?component)) 110 = (Inr ?news, 110)"
    by code_simp
  have a8: "componentInstance pageInstance = [Element 100 ''main'' [] ?cs0]"
    by (simp add: pageInstance_def)
  have a9: "separate (Element 100 ''main'' [] [] # ?component @ concat ?news)" by code_simp
  note t = refresh_replaces_callback_children
    [where c = pageInstance and i = 1 and f = ?f and w = ?w and xs = ?xs and h = exampleHost
       and table = "[1 \<mapsto> Arr ?xs]" and parsed = ?parsed and component = ?component
       and ?n1.0 = 110 and news = ?news and ?n2.0 = 110 and k = 100 and ?t0.0 = "''main''"
       and ?as0.0 = "[]" and ?cs0.0 = ?cs0 and r = Map.empty,
     OF a1 a2 a3 a4 a5 a6 a7 a8 a9]
  from t [THEN conjunct2, THEN conjunct2, THEN conjunct2, THEN conjunct2, THEN conjunct2]
  obtain as' where r: "componentInstance (fst (refresh exampleHost ?w pageInstance))
        = [Element 100 ''main'' as'
            (contents (map (fill (placed (findSlots ?component) ?news)) ?component))]"
    by blast
  have e: "contents (map (fill (placed (findSlots ?component) ?news)) ?component)
         = [Element 106 ''h1'' [] [Text 107 ''More items''],
            Element 108 ''ul'' []
              [Element 0 ''li'' [] [Text 1 ''A''], Element 2 ''li'' [] [Text 3 ''B''],
               Element 4 ''li'' [] [Text 5 ''C'']]]"
    by code_simp
  have d: "map attributes (componentInstance (fst (refresh exampleHost ?w pageInstance))) = [Some []]"
    by code_simp
  have "as' = []" using d r by simp
  then have "componentInstance (fst (refresh exampleHost ?w pageInstance))
     = [Element 100 ''main'' []
         [Element 106 ''h1'' [] [Text 107 ''More items''],
          Element 108 ''ul'' []
            [Element 0 ''li'' [] [Text 1 ''A''], Element 2 ''li'' [] [Text 3 ''B''],
             Element 4 ''li'' [] [Text 5 ''C'']]]]"
    using r by (simp only: e)
  then show ?thesis using a8 by simp
qed

text \<open>
  Claim C4 as stated fails when the callback is the whole template. In
  \<^verbatim>\<open>template`${() => items.map(listItem)}`\<close> the markup is the placeholder alone. The
  component built while the list is \<open>A\<close>, \<open>B\<close> is the placeholder element; a
  \<open>refresh\<close> while the list is \<open>A\<close>, \<open>B\<close>, \<open>C\<close> calls the callback again, which
  returns the three items, and ends without an exception, and the component is still the
  placeholder element with no child: the nodes of the new array are not in it.
\<close>

theorem whole_template_callback_counterexample:
  "map_sum id (\<lambda>c. (componentInstance c, created c))
       (template exampleHost [''A'', ''B''] 100 (strings wholeInstance) (args wholeInstance))
     = Inr (componentInstance wholeInstance, created wholeInstance) \<and>
   snd (createReference [''A'', ''B'', ''C''] Map.empty (args wholeInstance ! 0) 0) 0
     = Some (Arr [[Element 0 ''li'' [] [Text 1 ''A'']], [Element 2 ''li'' [] [Text 3 ''B'']],
                  [Element 4 ''li'' [] [Text 5 ''C'']]]) \<and>
   componentInstance (fst (refresh exampleHost [''A'', ''B'', ''C''] wholeInstance))
     = [Element 100 ''b'' [(''data-slot-index'', ''0'')] []] \<and>
   snd (refresh exampleHost [''A'', ''B'', ''C''] wholeInstance) = None"
  by code_simp

section \<open>The attributes after \<open>refresh\<close>\<close>

lemma removeAttribute_at:
  assumes "distinct (map fst as)" and "i < length as"
  shows "removeAttribute (fst (as ! i)) as = take i as @ drop (Suc i) as"
  using assms
proof (induction as arbitrary: i)
  case Nil
  then show ?case by simp
next
  case (Cons a as)
  show ?case
  proof (cases i)
    case 0
    have "fst a \<notin> fst ` set as" using Cons.prems(1) by simp
    then have "\<forall>b \<in> set as. fst b \<noteq> fst a" by (metis imageI)
    then have "filter (\<lambda>b. fst b \<noteq> fst a) as = as" by (simp add: filter_id_conv)
    then show ?thesis using 0 by (simp add: removeAttribute_def)
  next
    case (Suc j)
    then have j: "j < length as" using Cons.prems(2) by simp
    have "as ! j \<in> set as" using j by simp
    then have "fst a \<noteq> fst (as ! j)" using Cons.prems(1) by auto
    then show ?thesis
      using Cons.IH [of j] Cons.prems(1) j Suc by (simp add: removeAttribute_def)
  qed
qed

lemma removeLoop_others:
  "distinct (map fst as) \<Longrightarrow> removeLoop i as = take i as @ others (drop i as)"
proof (induction i as rule: removeLoop.induct)
  case (1 i as)
  show ?case
  proof (cases "i < length as")
    case False
    then show ?thesis by (simp add: removeLoop.simps [of i as])
  next
    case True
    let ?as' = "take i as @ drop (Suc i) as"
    have rm: "removeAttribute (fst (as ! i)) as = ?as'"
      using removeAttribute_at [OF "1.prems" True] .
    have d: "distinct (map fst ?as')"
      using "1.prems" by (metis rm removeAttribute_def distinct_map_filter)
    have step: "removeLoop i as = removeLoop (Suc i) ?as'"
      using True by (simp add: removeLoop.simps [of i as] rm)
    have ih: "removeLoop (Suc i) ?as' = take (Suc i) ?as' @ others (drop (Suc i) ?as')"
      using "1.IH" [OF True] d by (simp add: rm)
    show ?thesis
    proof (cases "Suc i < length as")
      case False
      then have "drop i as = [as ! i]"
        using True by (metis Cons_nth_drop_Suc drop_all not_less)
      then show ?thesis using step ih True False by simp
    next
      case True2: True
      have dr: "drop i as = as ! i # as ! Suc i # drop (Suc (Suc i)) as"
        using True True2 by (simp add: Cons_nth_drop_Suc)
      have t: "take (Suc i) ?as' = take i as @ [as ! Suc i]"
        using True True2 by (simp add: min_def take_Suc_conv_app_nth Cons_nth_drop_Suc [symmetric] nth_append)
      have dd: "drop (Suc i) ?as' = drop (Suc (Suc i)) as"
        using True by (simp add: min_def)
      have "removeLoop i as = (take i as @ [as ! Suc i]) @ others (drop (Suc (Suc i)) as)"
        using step ih by (simp only: t dd)
      also have "\<dots> = take i as @ others (drop i as)"
        by (simp only: dr others.simps append_assoc append_Cons append_Nil)
      finally show ?thesis .
    qed
  qed
qed

lemma map_of_setAttribute: "map_of (setAttribute name v as) = (map_of as)(name \<mapsto> v)"
proof (induction as)
  case Nil
  show ?case by simp
next
  case (Cons a as)
  show ?case
  proof (cases "fst a = name")
    case True
    then show ?thesis by (cases a) (simp add: fun_eq_iff)
  next
    case False
    then show ?thesis using Cons.IH by (cases a) (simp add: fun_eq_iff)
  qed
qed

lemma map_of_setLoop:
  "distinct (map fst source) \<Longrightarrow> map_of (setLoop source as) = map_of as ++ map_of source"
proof (induction source arbitrary: as)
  case Nil
  show ?case by simp
next
  case (Cons a source)
  obtain name v where a: "a = (name, v)" by (cases a)
  have d: "distinct (map fst source)" and n: "name \<notin> fst ` set source"
    using Cons.prems a by simp_all
  have "map_of source name = None" using n by (simp add: map_of_eq_None_iff)
  then have e: "(map_of as)(name \<mapsto> v) ++ map_of source = map_of as ++ map_of ((name, v) # source)"
    by (auto simp: fun_eq_iff map_add_def split: option.splits)
  have "map_of (setLoop (a # source) as) = map_of (setLoop source (setAttribute name v as))"
    by (simp add: a)
  also have "\<dots> = map_of (setAttribute name v as) ++ map_of source"
    by (rule Cons.IH [OF d])
  also have "\<dots> = (map_of as)(name \<mapsto> v) ++ map_of source"
    by (simp only: map_of_setAttribute)
  also have "\<dots> = map_of as ++ map_of (a # source)"
    by (simp only: e a)
  finally show ?case .
qed

text \<open>
  What \<open>copyAttributes\<close> does to an element with the attributes \<open>old\<close>, given a source
  element with the attributes \<open>new\<close>: the first loop removes the attributes at the
  positions 0, 2, 4, ... and leaves every second one, and the destination ends with
  those and all attributes of the source, the source's value winning for a shared name.
\<close>

theorem copyAttributes_keeps_every_second:
  assumes "distinct (map fst old)" and "distinct (map fst new)"
  shows "\<exists>as'. copyAttributes (Some (Element j u new cs')) (Some (Element i t old cs))
                 = (Some (Element i t as' cs), None) \<and>
               map_of as' = map_of (others old) ++ map_of new \<and>
               removeLoop 0 old = others old"
proof -
  have r: "removeLoop 0 old = others old"
    using removeLoop_others [OF assms(1), of 0] by simp
  have "copyAttributes (Some (Element j u new cs')) (Some (Element i t old cs))
          = (Some (Element i t (setLoop new (others old)) cs), None)"
    by (simp add: r)
  moreover have "map_of (setLoop new (others old)) = map_of (others old) ++ map_of new"
    by (rule map_of_setLoop [OF assms(2)])
  ultimately show ?thesis using r by blast
qed

theorem copyAttributes_keeps_every_second_witness:
  "\<exists>as'. copyAttributes (Some (Element 1 ''div'' [(''title'', ''t'')] []))
            (Some (Element 0 ''div'' [(''id'', ''x''), (''class'', ''y''), (''title'', ''s'')] []))
          = (Some (Element 0 ''div'' as' []), None) \<and>
        map_of as' = map_of (others [(''id'', ''x''), (''class'', ''y''), (''title'', ''s'')])
                       ++ map_of [(''title'', ''t'')] \<and>
        removeLoop 0 [(''id'', ''x''), (''class'', ''y''), (''title'', ''s'')]
          = others [(''id'', ''x''), (''class'', ''y''), (''title'', ''s'')]"
proof -
  have h1: "distinct (map fst [(''id'', ''x''), (''class'', ''y''), (''title'', ''s'')])" by simp
  have h2: "distinct (map fst [(''title'', ''t'')])" by simp
  show ?thesis by (rule copyAttributes_keeps_every_second [OF h1 h2])
qed

lemma set_others: "set (others xs) \<subseteq> set xs"
  by (induction xs rule: others.induct) auto

text \<open>
  When every attribute name on the destination is also a name on the source, the skipped
  attributes are overwritten: the destination ends with the attributes of the source, as
  a map from names to values. This is the case of a root element whose attribute names
  do not change from one build to the next.
\<close>

theorem copyAttributes_covering_source:
  assumes "distinct (map fst old)"
    and "distinct (map fst new)"
    and "fst ` set old \<subseteq> fst ` set new"
  shows "\<exists>as'. copyAttributes (Some (Element j u new cs')) (Some (Element i t old cs))
                 = (Some (Element i t as' cs), None) \<and>
               map_of as' = map_of new"
proof -
  have r: "removeLoop 0 old = others old"
    using removeLoop_others [OF assms(1), of 0] by simp
  have c: "copyAttributes (Some (Element j u new cs')) (Some (Element i t old cs))
          = (Some (Element i t (setLoop new (others old)) cs), None)"
    by (simp add: r)
  have m: "map_of (setLoop new (others old)) = map_of (others old) ++ map_of new"
    by (rule map_of_setLoop [OF assms(2)])
  have "dom (map_of (others old)) \<subseteq> dom (map_of new)"
  proof -
    have "dom (map_of (others old)) = fst ` set (others old)" by (rule dom_map_of_conv_image_fst)
    also have "\<dots> \<subseteq> fst ` set old" using set_others [of old] by blast
    also have "\<dots> \<subseteq> fst ` set new" by (rule assms(3))
    also have "\<dots> = dom (map_of new)" by (rule dom_map_of_conv_image_fst [symmetric])
    finally show ?thesis .
  qed
  then have "map_of (others old) ++ map_of new = map_of new"
    by (auto simp: fun_eq_iff map_add_def split: option.splits)
  then show ?thesis using c m by simp
qed

theorem copyAttributes_covering_source_witness:
  "\<exists>as'. copyAttributes (Some (Element 5 ''button'' [(''type'', ''button''), (''id'', ''n'')] []))
            (Some (Element 0 ''button'' [(''type'', ''button''), (''id'', ''m'')] []))
          = (Some (Element 0 ''button'' as' []), None) \<and>
        map_of as' = map_of [(''type'', ''button''), (''id'', ''n'')]"
proof -
  have h1: "distinct (map fst [(''type'', ''button''), (''id'', ''m'')])" by simp
  have h2: "distinct (map fst [(''type'', ''button''), (''id'', ''n'')])" by simp
  have h3: "fst ` set [(''type'', ''button''), (''id'', ''m'')]
              \<subseteq> fst ` set [(''type'', ''button''), (''id'', ''n'')]" by simp
  show ?thesis by (rule copyAttributes_covering_source [OF h1 h2 h3])
qed

lemma attrClosure_template:
  "template exampleHost True 0 attrStrings attrArgs = Inr attrClosure"
  by (simp add: template_def buildComponent_def attrClosure_def attrStrings_def
      attrArgs_def exampleHost_def exampleMarkup_def fragment_def findSlots_def contents_def
      selected_def)

text \<open>
  Claim C3 says that after \<open>refresh\<close> the live root has exactly the attributes of the
  newly built root. The code does otherwise here: the template is built while \<open>on\<close> is
  true, so the live root has \<open>id=x\<close> and \<open>class=y\<close>; \<open>refresh\<close> runs while \<open>on\<close> is
  false, so the newly built root has no attribute; the removal loop removes \<open>id\<close>, finds
  position 1 past the end of the collection and stops, and the live root keeps
  \<open>class=y\<close>.
\<close>

theorem refresh_leaves_old_attribute:
  "template exampleHost True 0 attrStrings attrArgs = Inr attrClosure \<and>
   map attributes (componentInstance attrClosure)
     = [Some [(''id'', ''x''), (''class'', ''y'')]] \<and>
   map_sum id (map attributes) (fst (buildComponent exampleHost False attrClosure))
     = Inr [Some []] \<and>
   map attributes (componentInstance (fst (refresh exampleHost False attrClosure)))
     = [Some [(''class'', ''y'')]] \<and>
   snd (refresh exampleHost False attrClosure) = None \<and>
   copyAttributes (Some (Element 1 ''div'' [] []))
        (Some (Element 0 ''div'' [(''id'', ''x''), (''class'', ''y'')] []))
     = (Some (Element 0 ''div'' [(''class'', ''y'')] []), None)"
proof -
  have "map attributes (componentInstance attrClosure)
     = [Some [(''id'', ''x''), (''class'', ''y'')]] \<and>
   map_sum id (map attributes) (fst (buildComponent exampleHost False attrClosure))
     = Inr [Some []] \<and>
   map attributes (componentInstance (fst (refresh exampleHost False attrClosure)))
     = [Some [(''class'', ''y'')]] \<and>
   snd (refresh exampleHost False attrClosure) = None \<and>
   copyAttributes (Some (Element 1 ''div'' [] []))
        (Some (Element 0 ''div'' [(''id'', ''x''), (''class'', ''y'')] []))
     = (Some (Element 0 ''div'' [(''class'', ''y'')] []), None)"
    by code_simp
  with attrClosure_template show ?thesis by (rule conjI)
qed

text \<open>
  Claim C8 says that a second \<open>refresh\<close> in the same state gives the same structure as
  the first. The code does otherwise here: with the template built while \<open>on\<close> is true
  and both calls made while \<open>on\<close> is false, the first \<open>refresh\<close> leaves the root with
  \<open>class=y\<close> and the second leaves it with no attribute; neither call throws.
\<close>

theorem refresh_twice_differs:
  "template exampleHost True 0 attrStrings attrArgs = Inr attrClosure \<and>
   map erase (componentInstance (fst (refresh exampleHost False attrClosure)))
     = [HElement ''div'' [(''class'', ''y'')] []] \<and>
   map erase (componentInstance (fst (refresh exampleHost False
        (fst (refresh exampleHost False attrClosure)))))
     = [HElement ''div'' [] []] \<and>
   snd (refresh exampleHost False attrClosure) = None \<and>
   snd (refresh exampleHost False (fst (refresh exampleHost False attrClosure))) = None"
proof -
  have "map erase (componentInstance (fst (refresh exampleHost False attrClosure)))
     = [HElement ''div'' [(''class'', ''y'')] []] \<and>
   map erase (componentInstance (fst (refresh exampleHost False
        (fst (refresh exampleHost False attrClosure)))))
     = [HElement ''div'' [] []] \<and>
   snd (refresh exampleHost False attrClosure) = None \<and>
   snd (refresh exampleHost False (fst (refresh exampleHost False attrClosure))) = None"
    by code_simp
  with attrClosure_template show ?thesis by (rule conjI)
qed

section \<open>Further properties of the resolution\<close>

text \<open>
  A node has one place. In \<^verbatim>\<open>template`<div>${nextButton}${nextButton}</div>`\<close> the same
  component is the value of both placeholders: the first replacement puts it in the
  place of the first placeholder, the second takes it from there to the place of the
  second, and the component built holds it once.
\<close>

theorem same_node_at_two_placeholders:
  "fst (reduce () (strings twiceClosure) (args twiceClosure) 0
          (fragment (strings twiceClosure) 0, references twiceClosure))
     = Inr ''<div><b data-slot-index=0></b><b data-slot-index=1></b></div>'' \<and>
   each (slotContent exampleHost () (args twiceClosure) Map.empty)
        [(11, [(''data-slot-index'', ''0'')])]
        ([Element 10 ''div'' []
           [Element 11 ''b'' [(''data-slot-index'', ''0'')] [],
            Element 12 ''b'' [(''data-slot-index'', ''1'')] []]], []) 13
     = (Inr [Element 10 ''div'' []
              [nextButton, Element 12 ''b'' [(''data-slot-index'', ''1'')] []]], 13) \<and>
   fst (buildComponent exampleHost () twiceClosure) = Inr [Element 10 ''div'' [] [nextButton]]"
  by code_simp

lemma decimal_digits: "set (decimal n) \<subseteq> set ''0123456789''"
proof (induction n rule: decimal.induct)
  case (1 n)
  have d: "\<And>k. k < 10 \<Longrightarrow> ''0123456789'' ! k \<in> set ''0123456789''"
  proof -
    fix k :: nat
    assume "k < 10"
    then have "k < length ''0123456789''" by simp
    then show "''0123456789'' ! k \<in> set ''0123456789''" by (rule nth_mem)
  qed
  show ?case
  proof (cases "n < 10")
    case True
    then show ?thesis using d [of n] by (simp add: decimal.simps [of n])
  next
    case False
    have "set (decimal (n div 10)) \<subseteq> set ''0123456789''" using "1.IH" False by simp
    moreover have "''0123456789'' ! (n mod 10) \<in> set ''0123456789''" by (rule d) simp
    ultimately show ?thesis using False by (simp add: decimal.simps [of n])
  qed
qed

lemma slotIndex_name:
  assumes "map_of as ''data-slot-index'' = Some text"
    and "\<not> set text \<subseteq> set ''0123456789''"
  shows "slotIndex as = Name text"
proof -
  have "decimal (digitsValue text) \<noteq> text"
    using decimal_digits [of "digitsValue text"] assms(2) by auto
  then show ?thesis using assms(1) by (simp add: slotIndex_def)
qed

text \<open>
  A placeholder element of the markup whose \<open>data-slot-index\<close> is not an index reads the
  property of \<open>args\<close> that its text names: for \<open>length\<close> the number of values, which
  is inserted as a text.
\<close>

theorem length_index_reads_array_length:
  "selected ''b'' [(''data-slot-index'', ''length'')] \<and>
   slotIndex [(''data-slot-index'', ''length'')] = Name ''length'' \<and>
   slotContent exampleHost () buttonArgs Map.empty [(''data-slot-index'', ''length'')] 20
     = (Inr [Text 20 ''1''], 21)"
proof -
  have s: "selected ''b'' [(''data-slot-index'', ''length'')]" by (simp add: selected_def)
  have n: "slotIndex [(''data-slot-index'', ''length'')] = Name ''length''"
    by (rule slotIndex_name) simp_all
  have "slotContent exampleHost () buttonArgs Map.empty [(''data-slot-index'', ''length'')] 20
     = (Inr [Text 20 ''1''], 21)"
    by (simp add: slotContent_def n argsAt_def getReferenceValue_def buttonArgs_def
        decimal.simps)
  then show ?thesis using s n by simp
qed


end
